theory Spec2Isabelle
  imports Main "HOL-Library.Word"
begin

section \<open>Package chat: users, messages, events, errors\<close>

text \<open>
  The bridge (src/bridge/bridge.go) is written against the \<open>chat\<close> package: a
  \<open>chat.Message\<close> has an \<open>ID\<close>, a \<open>From\<close> user and a \<open>Text\<close>; a \<open>chat.User\<close> has the
  fields the bridge's \<open>me\<close> and Telegram's \<open>chatUser\<close> fill in. The user's field \<open>ID\<close> is
  called \<open>UID\<close> here, since a record field name is global in Isabelle.
\<close>

type_synonym MessageID = string
type_synonym UserID = string

record User =
  UID :: UserID
  Nick :: string
  FullName :: string
  DisplayName :: string
  PhotoURL :: string

record Message =
  ID :: MessageID
  From :: User
  Text :: string

text \<open>
  The events a channel's \<open>Receive\<close> yields (an \<open>interface{}\<close> in Go, dispatched by a type
  switch in \<open>relay\<close>). \<open>OtherEv\<close> stands for a value of any other type.
\<close>

datatype Event =
    MessageEv Message
  | ReplyEv Message Message
  | DeleteEv MessageID
  | EditEv MessageID MessageID string
  | JoinEv User
  | LeaveEv User
  | RenameEv User User
  | OtherEv

text \<open>
  Go errors. The bridge compares errors with \<open>context.Canceled\<close>,
  \<open>context.DeadlineExceeded\<close> and \<open>io.EOF\<close>; every other error value (made by
  \<open>errors.New\<close>, \<open>fmt.Errorf\<close> or a backend) is \<open>ErrorsNew\<close> with its text.
\<close>

datatype error = Canceled | DeadlineExceeded | EOF | ErrorsNew string

fun Error :: "error \<Rightarrow> string" where
  "Error Canceled = ''context canceled''"
| "Error DeadlineExceeded = ''context deadline exceeded''"
| "Error EOF = ''EOF''"
| "Error (ErrorsNew s) = s"

text \<open>
  A \<open>chat.Channel\<close> value is an interface compared by identity (\<open>ch != exclude\<close>,
  \<open>c.to == origin\<close>). The Bridge itself is a channel (\<open>BridgeChan\<close>: it is the origin of
  the entries its own sends log); a bridged backend is identified by a key and carries
  what its \<open>Name\<close> and \<open>ServiceName\<close> methods return.
\<close>

datatype Channel = BridgeChan | Backend nat string string

fun Name :: "Channel \<Rightarrow> string" where
  "Name BridgeChan = ''bridge''"
| "Name (Backend k n s) = n"

fun ServiceName :: "Channel \<Rightarrow> string" where
  "ServiceName BridgeChan = ''bridge''"
| "ServiceName (Backend k n s) = s"

text \<open>
  The calls the bridge makes on a bridged channel, and what the backends answer. The
  answers are the environment of one bridge operation: \<open>sendResult\<close> for
  Send/SendAs/Reply/ReplyAs, \<open>editResult\<close> for Edit, \<open>deleteResult\<close> for Delete.
  The calls of one fan-out run in goroutines of an \<open>errgroup.Group\<close>; \<open>finish\<close> lists
  the positions of the goroutines that finish first, in the order they finish (the
  others finish afterwards, in launch order).
\<close>

datatype Call =
    Send Channel string
  | SendAs Channel User string
  | Reply Channel Message string
  | ReplyAs Channel User Message string
  | Edit Channel MessageID string
  | Delete Channel MessageID

record World =
  sendResult :: "Call \<Rightarrow> error + Message"
  editResult :: "Call \<Rightarrow> error + MessageID"
  deleteResult :: "Call \<Rightarrow> error option"
  finish :: "nat list"

section \<open>The Bridge\<close>

record message =
  to :: Channel
  msg :: Message

record logEntry =
  origin :: Channel
  copies :: "message list"

text \<open>The struct \<open>event\<close>; its field \<open>origin\<close> is \<open>evOrigin\<close> here.\<close>

record event =
  evOrigin :: Channel
  what :: Event

text \<open>
  The state of a Bridge. The Go channels are their contents: \<open>eventsMux\<close> the queued
  events of the pollers (capacity 100), \<open>recvIn\<close> the events the mux goroutine has
  published and \<open>Receive\<close> has not yet returned (the batch in \<open>recvIn\<close> and what the
  \<open>recv\<close> goroutine is handing to \<open>recvOut\<close>), \<open>recvOutClosed\<close> whether \<open>recv\<close> has
  returned and closed \<open>recvOut\<close>, \<open>pollError\<close> and \<open>closeError\<close> the content of these
  one-slot buffered channels, \<open>closed\<close> whether \<open>Close\<close> has closed the channel
  \<open>closed\<close>, \<open>muxDone\<close> whether the mux goroutine has returned (its deferred calls
  have then closed \<open>closeError\<close> and cancelled the context). The counter field
  \<open>nextID\<close> is \<open>nextID_val\<close> here (the function \<open>nextID\<close> keeps the name); Go's \<open>int\<close>
  is 64 bits wide on the 64-bit targets and wraps around.
\<close>

record Bridge =
  channels :: "Channel list"
  nextID_val :: "64 word"
  log :: "logEntry list"
  eventsMux :: "event list"
  recvIn :: "Event list"
  recvOutClosed :: bool
  pollError :: "error option"
  closeError :: "error option"
  closed :: bool
  muxDone :: bool

definition maxHistory :: nat where
  "maxHistory = 500"

definition eventsMuxCap :: nat where
  "eventsMuxCap = 100"

definition New :: "Channel list \<Rightarrow> Bridge" where
  "New chans =
     \<lparr>channels = chans, nextID_val = 0, log = [], eventsMux = [], recvIn = [],
      recvOutClosed = False, pollError = None, closeError = None, closed = False,
      muxDone = False\<rparr>"

subsection \<open>The correlation log\<close>

definition logMessage :: "Bridge \<Rightarrow> logEntry \<Rightarrow> Bridge" where
  "logMessage b entry =
     (let l = log b @ [entry]
      in b\<lparr>log := (if length l > maxHistory then take maxHistory l else l)\<rparr>)"

definition allChannelsExcept :: "Bridge \<Rightarrow> Channel \<Rightarrow> Channel list" where
  "allChannelsExcept b exclude = filter (\<lambda>ch. ch \<noteq> exclude) (channels b)"

type_synonym findMessageFunc = "Channel \<Rightarrow> Message option"

text \<open>
  \<open>makeFindMessage\<close> looks for the first entry of the log with a copy on \<open>origin\<close> whose
  identifier is \<open>id\<close>; the function it returns gives the first copy of that entry on a
  channel. In Go that function returns \<open>&c.msg\<close>, where \<open>c\<close> is the variable of the
  \<open>range\<close> loop over \<open>entry.copies\<close>: the address of a copy of the slice's element, not
  of the element.
\<close>

definition matches :: "Channel \<Rightarrow> MessageID \<Rightarrow> logEntry \<Rightarrow> bool" where
  "matches orig i e = list_ex (\<lambda>c. to c = orig \<and> ID (msg c) = i) (copies e)"

definition makeFindMessage :: "Bridge \<Rightarrow> Channel \<Rightarrow> MessageID \<Rightarrow> findMessageFunc" where
  "makeFindMessage b orig i =
     (let entry = find (matches orig i) (log b)
      in (\<lambda>ch. case entry of
                  None \<Rightarrow> None
                | Some e \<Rightarrow> map_option msg (find (\<lambda>c. to c = ch) (copies e))))"

subsection \<open>Fan-out\<close>

text \<open>
  \<open>errgroup.Group.Wait\<close> returns the first error in the order the goroutines finish,
  or nil. Every goroutine runs to its end: the group has no context that an error
  would cancel.
\<close>

fun firstError :: "error option list \<Rightarrow> error option" where
  "firstError [] = None"
| "firstError (None # rs) = firstError rs"
| "firstError (Some e # rs) = Some e"

definition Wait :: "nat list \<Rightarrow> error option list \<Rightarrow> error option" where
  "Wait fin rs = firstError (map (\<lambda>i. rs ! i) (filter (\<lambda>i. i < length rs) fin) @ rs)"

fun errOf :: "error + 'a \<Rightarrow> error option" where
  "errOf (Inl e) = Some e"
| "errOf (Inr v) = None"

fun messagesOf :: "(Channel \<times> (error + Message)) list \<Rightarrow> message list" where
  "messagesOf [] = []"
| "messagesOf ((ch, Inr m) # xs) = \<lparr>to = ch, msg = m\<rparr> # messagesOf xs"
| "messagesOf ((ch, Inl e) # xs) = messagesOf xs"

definition sendCall :: "User option \<Rightarrow> findMessageFunc \<Rightarrow> string \<Rightarrow> Channel \<Rightarrow> Call" where
  "sendCall sendAs findMessage text ch =
     (case findMessage ch of
        Some replyTo \<Rightarrow>
          (case sendAs of
             None \<Rightarrow> Reply ch replyTo text
           | Some u \<Rightarrow> ReplyAs ch u replyTo text)
      | None \<Rightarrow>
          (case sendAs of
             None \<Rightarrow> Send ch text
           | Some u \<Rightarrow> SendAs ch u text))"

text \<open>
  \<open>sendMessage\<close> returns the calls it made (one per channel, in the order of the
  channels) and what the Go function returns: the first error, or the messages the
  channels returned, \<open>messages[i]\<close> from \<open>channels[i]\<close>.
\<close>

definition sendMessage ::
  "World \<Rightarrow> Channel list \<Rightarrow> User option \<Rightarrow> findMessageFunc option \<Rightarrow> string
    \<Rightarrow> Call list \<times> (error + message list)" where
  "sendMessage w chans sendAs findMessage text =
     (let fm = (case findMessage of None \<Rightarrow> (\<lambda>ch. None) | Some f \<Rightarrow> f);
          calls = map (sendCall sendAs fm text) chans;
          rs = map (sendResult w) calls
      in (calls,
          case Wait (finish w) (map errOf rs) of
            Some err \<Rightarrow> Inl err
          | None \<Rightarrow> Inr (messagesOf (zip chans rs))))"

text \<open>
  One goroutine of \<open>editMessage\<close>. The identifier \<open>Edit\<close> returns is assigned to
  \<open>msg.ID\<close>, where \<open>msg\<close> is the pointer \<open>findMessage\<close> returned: the copy described
  above, which nothing reads afterwards. The log is not written.
\<close>

definition editOne :: "World \<Rightarrow> findMessageFunc \<Rightarrow> string \<Rightarrow> Channel \<Rightarrow> Call list \<times> error option" where
  "editOne w findMessage text ch =
     (case findMessage ch of
        None \<Rightarrow> ([], None)
      | Some m \<Rightarrow>
          (let c = Edit ch (ID m) text
           in ([c],
               case editResult w c of
                 Inl err \<Rightarrow>
                   Some (ErrorsNew (''failed to send edit to '' @ Name ch @ '' on ''
                                     @ ServiceName ch @ '': '' @ Error err))
               | Inr newID \<Rightarrow> None)))"

definition editMessage ::
  "World \<Rightarrow> Channel list \<Rightarrow> findMessageFunc \<Rightarrow> string \<Rightarrow> Call list \<times> error option" where
  "editMessage w chans findMessage text =
     (let rs = map (editOne w findMessage text) chans
      in (concat (map fst rs), Wait (finish w) (map snd rs)))"

definition deleteOne :: "World \<Rightarrow> findMessageFunc \<Rightarrow> Channel \<Rightarrow> Call list \<times> error option" where
  "deleteOne w findMessage ch =
     (case findMessage ch of
        None \<Rightarrow> ([], None)
      | Some m \<Rightarrow>
          (let c = Delete ch (ID m)
           in ([c],
               case deleteResult w c of
                 Some err \<Rightarrow>
                   Some (ErrorsNew (''failed to send delete to '' @ Name ch @ '' on ''
                                     @ ServiceName ch @ '': '' @ Error err))
               | None \<Rightarrow> None)))"

definition deleteMessage ::
  "World \<Rightarrow> Channel list \<Rightarrow> findMessageFunc \<Rightarrow> Call list \<times> error option" where
  "deleteMessage w chans findMessage =
     (let rs = map (deleteOne w findMessage) chans
      in (concat (map fst rs), Wait (finish w) (map snd rs)))"

subsection \<open>Relay\<close>

text \<open>
  \<open>relay\<close> returns the calls made on the bridged channels, the error it returns (None
  for nil) and the Bridge afterwards. \<open>userName\<close> is the method \<open>Name\<close> of \<open>chat.User\<close>,
  which is not among the sources; it only builds the text of the Join, Leave and Rename
  notices.
\<close>

definition relay ::
  "(User \<Rightarrow> string) \<Rightarrow> World \<Rightarrow> Bridge \<Rightarrow> event \<Rightarrow> Call list \<times> error option \<times> Bridge" where
  "relay userName w b event =
     (let origName = Name (evOrigin event) @ '' on '' @ ServiceName (evOrigin event);
          dest = allChannelsExcept b (evOrigin event)
      in case what event of
           MessageEv ev \<Rightarrow>
             (case sendMessage w dest (Some (From ev)) None (Text ev) of
                (calls, Inl err) \<Rightarrow> (calls, Some err, b)
              | (calls, Inr msgs) \<Rightarrow>
                  (calls, None,
                   logMessage b \<lparr>origin = evOrigin event,
                                 copies = msgs @ [\<lparr>to = evOrigin event, msg = ev\<rparr>]\<rparr>))
         | ReplyEv replyTo reply \<Rightarrow>
             (let findMessage = makeFindMessage b (evOrigin event) (ID replyTo)
              in case sendMessage w dest None (Some findMessage) (Text reply) of
                   (calls, Inl err) \<Rightarrow> (calls, Some err, b)
                 | (calls, Inr msgs) \<Rightarrow>
                     (calls, None,
                      logMessage b \<lparr>origin = BridgeChan,
                                    copies = msgs @ [\<lparr>to = evOrigin event, msg = reply\<rparr>]\<rparr>))
         | DeleteEv i \<Rightarrow>
             (case deleteMessage w dest (makeFindMessage b (evOrigin event) i) of
                (calls, err) \<Rightarrow> (calls, err, b))
         | EditEv i newID text \<Rightarrow>
             (case editMessage w dest (makeFindMessage b (evOrigin event) i) text of
                (calls, err) \<Rightarrow> (calls, err, b))
         | JoinEv who \<Rightarrow>
             (case sendMessage w dest None None (userName who @ '' joined '' @ origName) of
                (calls, r) \<Rightarrow> (calls, errOf r, b))
         | LeaveEv who \<Rightarrow>
             (case sendMessage w dest None None (userName who @ '' left '' @ origName) of
                (calls, r) \<Rightarrow> (calls, errOf r, b))
         | RenameEv old new \<Rightarrow>
             (if userName old = userName new then ([], None, b)
              else case sendMessage w dest None None
                          (userName old @ '' renamed to '' @ userName new @ '' in '' @ origName) of
                     (calls, r) \<Rightarrow> (calls, errOf r, b))
         | OtherEv \<Rightarrow> ([], None, b))"

subsection \<open>The goroutines: poll, mux, recv\<close>

text \<open>
  One iteration of \<open>poll\<close> for the channel \<open>ch\<close>, given what \<open>ch.Receive\<close> returned.
  The result is None where the goroutine blocks (sending to a full \<open>eventsMux\<close>);
  otherwise whether the loop goes on (\<open>Polling\<close>) or has returned (\<open>Exited\<close>), and the
  Bridge afterwards. The send to \<open>pollError\<close> is in a \<open>select\<close> with a \<open>default\<close>: it
  happens when the slot is free and is skipped otherwise.
\<close>

datatype poller = Polling | Exited

definition poll :: "Channel \<Rightarrow> error + Event \<Rightarrow> Bridge \<Rightarrow> (poller \<times> Bridge) option" where
  "poll ch r b =
     (case r of
        Inl err \<Rightarrow>
          (if err = Canceled \<or> err = DeadlineExceeded then Some (Exited, b)
           else Some (Exited,
                      case pollError b of
                        None \<Rightarrow> b\<lparr>pollError := Some err\<rparr>
                      | Some e \<Rightarrow> b))
      | Inr ev \<Rightarrow>
          (if length (eventsMux b) < eventsMuxCap
           then Some (Polling, b\<lparr>eventsMux := eventsMux b @ [\<lparr>evOrigin = ch, what = ev\<rparr>]\<rparr>)
           else None))"

text \<open>
  One iteration of the loop of \<open>mux\<close>. Go's \<open>select\<close> takes any case that is ready;
  \<open>sel\<close> is the case taken, and the result is None where that case is not ready or the
  goroutine has returned. After a relay without error the event is appended to the
  batch in \<open>recvIn\<close>.
\<close>

datatype selectCase = CaseClosed | CasePollError | CaseEvent

definition mux ::
  "(User \<Rightarrow> string) \<Rightarrow> World \<Rightarrow> selectCase \<Rightarrow> Bridge \<Rightarrow> (Call list \<times> Bridge) option" where
  "mux userName w sel b =
     (if muxDone b then None
      else case sel of
        CaseClosed \<Rightarrow>
          (if closed b then Some ([], b\<lparr>muxDone := True\<rparr>) else None)
      | CasePollError \<Rightarrow>
          (case pollError b of
             None \<Rightarrow> None
           | Some err \<Rightarrow>
               Some ([], b\<lparr>pollError := None, closeError := Some err, muxDone := True\<rparr>))
      | CaseEvent \<Rightarrow>
          (case eventsMux b of
             [] \<Rightarrow> None
           | ev # rest \<Rightarrow>
               (case relay userName w (b\<lparr>eventsMux := rest\<rparr>) ev of
                  (calls, Some err, b') \<Rightarrow>
                    Some (calls, b'\<lparr>closeError := Some err, muxDone := True\<rparr>)
                | (calls, None, b') \<Rightarrow>
                    Some (calls, b'\<lparr>recvIn := recvIn b' @ [what ev]\<rparr>))))"

text \<open>
  \<open>recv\<close> hands the published events to \<open>Receive\<close> one by one. Once the context is
  cancelled (the mux goroutine has returned) it may return instead, dropping what is
  left and closing \<open>recvOut\<close>: \<open>recvCancel\<close>.
\<close>

definition recvCancel :: "Bridge \<Rightarrow> Bridge option" where
  "recvCancel b =
     (if muxDone b then Some (b\<lparr>recvIn := [], recvOutClosed := True\<rparr>) else None)"

text \<open>
  \<open>Receive\<close> of the Bridge, with a context that is never done: the next event, or
  \<open>io.EOF\<close> when \<open>recvOut\<close> is closed; None where it blocks.
\<close>

definition Receive :: "Bridge \<Rightarrow> ((error + Event) \<times> Bridge) option" where
  "Receive b =
     (if recvOutClosed b then Some (Inl EOF, b)
      else case recvIn b of
             [] \<Rightarrow> None
           | ev # rest \<Rightarrow> Some (Inr ev, b\<lparr>recvIn := rest\<rparr>))"

text \<open>
  \<open>Close\<close> closes the channel \<open>closed\<close> and then receives from \<open>closeError\<close>: the error
  the mux goroutine sent, or nil from the closed channel. \<open>CloseRequest\<close> is the first
  statement; \<open>CloseReturn\<close> the rest, which blocks (None) until the mux goroutine has
  sent or returned.
\<close>

definition CloseRequest :: "Bridge \<Rightarrow> Bridge" where
  "CloseRequest b = b\<lparr>closed := True\<rparr>"

definition CloseReturn :: "Bridge \<Rightarrow> error option option" where
  "CloseReturn b =
     (case closeError b of
        Some err \<Rightarrow> Some (Some (if err = EOF then ErrorsNew ''unexpected EOF'' else err))
      | None \<Rightarrow> (if muxDone b then Some None else None))"

subsection \<open>The Bridge as a channel\<close>

text \<open>\<open>strconv.Itoa\<close>: the decimal digits of an integer, with a minus sign when negative.\<close>

function FormatUint :: "nat \<Rightarrow> string" where
  "FormatUint n =
     (if n < 10 then [char_of (48 + n)]
      else FormatUint (n div 10) @ [char_of (48 + n mod 10)])"
  by pat_completeness auto
termination
  by (relation "measure id") auto

declare FormatUint.simps [simp del]

definition Itoa :: "int \<Rightarrow> string" where
  "Itoa i = (if i < 0 then CHR ''-'' # FormatUint (nat (- i)) else FormatUint (nat i))"

definition me :: "Bridge \<Rightarrow> User" where
  "me b = \<lparr>UID = ''bridge'', Nick = ''bridge'', FullName = ''bridge'',
           DisplayName = ''bridge'', PhotoURL = []\<rparr>"

text \<open>\<open>nextID\<close> increments the counter and returns the digits of the counter minus one.\<close>

definition nextID :: "Bridge \<Rightarrow> MessageID \<times> Bridge" where
  "nextID b =
     (let b' = b\<lparr>nextID_val := nextID_val b + 1\<rparr>
      in (Itoa (sint (nextID_val b' - 1)), b'))"

text \<open>
  The four send methods differ in the \<open>sendAs\<close> and \<open>findMessage\<close> they give to
  \<open>sendMessage\<close>; \<open>finishSend\<close> is their common tail. After \<open>sendMessage\<close> the method
  takes the lock twice: in \<open>nextID\<close>, to build the message it returns (\<open>takeID\<close> gives
  the message, the entry to log and the Bridge afterwards), and in \<open>logMessage\<close>. Each
  method returns the calls made, its result and the Bridge afterwards.
\<close>

definition takeID :: "Bridge \<Rightarrow> string \<Rightarrow> message list \<Rightarrow> Message \<times> logEntry \<times> Bridge" where
  "takeID b text msgs =
     (case nextID b of
        (i, b') \<Rightarrow>
          (let m = \<lparr>ID = i, From = me b', Text = text\<rparr>
           in (m, \<lparr>origin = BridgeChan, copies = msgs @ [\<lparr>to = BridgeChan, msg = m\<rparr>]\<rparr>, b')))"

definition finishSend ::
  "Bridge \<Rightarrow> string \<Rightarrow> Call list \<times> (error + message list)
    \<Rightarrow> Call list \<times> (error + Message) \<times> Bridge" where
  "finishSend b text r =
     (case r of
        (calls, Inl err) \<Rightarrow> (calls, Inl err, b)
      | (calls, Inr msgs) \<Rightarrow>
          (case takeID b text msgs of
             (m, entry, b') \<Rightarrow> (calls, Inr m, logMessage b' entry)))"

definition BridgeSend :: "World \<Rightarrow> Bridge \<Rightarrow> string \<Rightarrow> Call list \<times> (error + Message) \<times> Bridge" where
  "BridgeSend w b text = finishSend b text (sendMessage w (channels b) None None text)"

definition BridgeSendAs ::
  "World \<Rightarrow> Bridge \<Rightarrow> User \<Rightarrow> string \<Rightarrow> Call list \<times> (error + Message) \<times> Bridge" where
  "BridgeSendAs w b sendAs text =
     finishSend b text (sendMessage w (channels b) (Some sendAs) None text)"

definition BridgeReply ::
  "World \<Rightarrow> Bridge \<Rightarrow> Message \<Rightarrow> string \<Rightarrow> Call list \<times> (error + Message) \<times> Bridge" where
  "BridgeReply w b replyTo text =
     finishSend b text
       (sendMessage w (channels b) None (Some (makeFindMessage b BridgeChan (ID replyTo))) text)"

definition BridgeReplyAs ::
  "World \<Rightarrow> Bridge \<Rightarrow> User \<Rightarrow> Message \<Rightarrow> string \<Rightarrow> Call list \<times> (error + Message) \<times> Bridge" where
  "BridgeReplyAs w b sendAs replyTo text =
     finishSend b text
       (sendMessage w (channels b) (Some sendAs)
          (Some (makeFindMessage b BridgeChan (ID replyTo))) text)"

text \<open>\<open>Delete\<close> and \<open>Edit\<close> of the Bridge do nothing.\<close>

definition BridgeDelete :: "Bridge \<Rightarrow> MessageID \<Rightarrow> error option" where
  "BridgeDelete b i = None"

definition BridgeEdit :: "Bridge \<Rightarrow> MessageID \<Rightarrow> string \<Rightarrow> error + MessageID" where
  "BridgeEdit b i text = Inr i"

subsection \<open>Runs of a Bridge\<close>

text \<open>
  Everything that changes a Bridge, as one atomic operation each: an iteration of a
  poller, an iteration of the mux loop, the \<open>recv\<close> goroutine giving up, a \<open>Receive\<close>, a
  \<open>Close\<close>, and the send methods called directly. A send method that runs while other
  goroutines run is two operations, one for each time it takes the lock: \<open>OpTakeID\<close>
  (its \<open>sendMessage\<close> has returned \<open>msgs\<close>; it runs \<open>nextID\<close>) and later \<open>OpLog\<close> (it logs
  its entry and returns). The shared fields are written under the Bridge's lock or by
  one goroutine only, so a concurrent execution is a sequence of such operations. An
  operation that is not enabled leaves the Bridge as it is.
\<close>

datatype Op =
    OpPoll Channel "error + Event"
  | OpMux World selectCase
  | OpRecvCancel
  | OpReceive
  | OpClose
  | OpSend World string
  | OpSendAs World User string
  | OpReply World Message string
  | OpReplyAs World User Message string
  | OpTakeID string "message list"
  | OpLog logEntry

fun step :: "(User \<Rightarrow> string) \<Rightarrow> Bridge \<Rightarrow> Op \<Rightarrow> Bridge" where
  "step u b (OpPoll ch r) = (case poll ch r b of None \<Rightarrow> b | Some (p, b') \<Rightarrow> b')"
| "step u b (OpMux w sel) = (case mux u w sel b of None \<Rightarrow> b | Some (calls, b') \<Rightarrow> b')"
| "step u b OpRecvCancel = (case recvCancel b of None \<Rightarrow> b | Some b' \<Rightarrow> b')"
| "step u b OpReceive = (case Receive b of None \<Rightarrow> b | Some (r, b') \<Rightarrow> b')"
| "step u b OpClose = CloseRequest b"
| "step u b (OpSend w text) = snd (snd (BridgeSend w b text))"
| "step u b (OpSendAs w sendAs text) = snd (snd (BridgeSendAs w b sendAs text))"
| "step u b (OpReply w replyTo text) = snd (snd (BridgeReply w b replyTo text))"
| "step u b (OpReplyAs w sendAs replyTo text) = snd (snd (BridgeReplyAs w b sendAs replyTo text))"
| "step u b (OpTakeID text msgs) = snd (snd (takeID b text msgs))"
| "step u b (OpLog entry) = logMessage b entry"

definition run :: "(User \<Rightarrow> string) \<Rightarrow> Bridge \<Rightarrow> Op list \<Rightarrow> Bridge" where
  "run u b ops = foldl (step u) b ops"

text \<open>
  The identifiers the send methods called directly have taken in a run, in the order
  in which they ran \<open>nextID\<close>.
\<close>

fun directResult :: "Bridge \<Rightarrow> Op \<Rightarrow> (error + Message) option" where
  "directResult b (OpSend w text) = Some (fst (snd (BridgeSend w b text)))"
| "directResult b (OpSendAs w sendAs text) = Some (fst (snd (BridgeSendAs w b sendAs text)))"
| "directResult b (OpReply w replyTo text) = Some (fst (snd (BridgeReply w b replyTo text)))"
| "directResult b (OpReplyAs w sendAs replyTo text) =
     Some (fst (snd (BridgeReplyAs w b sendAs replyTo text)))"
| "directResult b (OpTakeID text msgs) = Some (Inr (fst (takeID b text msgs)))"
| "directResult b other = None"

fun issued :: "(User \<Rightarrow> string) \<Rightarrow> Bridge \<Rightarrow> Op list \<Rightarrow> MessageID list" where
  "issued u b [] = []"
| "issued u b (x # ops) =
     (case directResult b x of
        Some (Inr m) \<Rightarrow> ID m # issued u (step u b x) ops
      | Some (Inl err) \<Rightarrow> issued u (step u b x) ops
      | None \<Rightarrow> issued u (step u b x) ops)"

text \<open>The number a decimal identifier denotes (\<open>strconv.Atoi\<close> on the output of \<open>Itoa\<close>).\<close>

definition ParseUint :: "string \<Rightarrow> nat" where
  "ParseUint s = foldl (\<lambda>a c. 10 * a + (of_char c - 48)) 0 s"

definition Atoi :: "string \<Rightarrow> int" where
  "Atoi s = (case s of
               [] \<Rightarrow> 0
             | c # cs \<Rightarrow> (if c = CHR ''-'' then - int (ParseUint cs) else int (ParseUint s)))"

section \<open>The Telegram adapter: mapping updates to events\<close>

text \<open>
  src/telegram/channel.go. The types \<open>Update\<close>, \<open>Message\<close> and \<open>User\<close> of the Telegram
  API are declared in a file that is not among the sources; they are given here with
  the fields \<open>chatEvent\<close> reads, a pointer field as an option (None for nil). \<open>mTime\<close>
  is the value of the method \<open>Time\<close>. Fields whose name is taken already carry a prefix.
\<close>

record TgUser =
  tgID :: "64 word"
  FirstName :: string
  LastName :: string
  Username :: string

datatype TgMessage = TgMessage
  (MessageID: "64 word")
  (mFrom: "TgUser option")
  (mTime: int)
  (ReplyToMessage: "TgMessage option")
  (NewChatMember: "TgUser option")
  (LeftChatMember: "TgUser option")
  (Document: "string option")
  (Sticker: "string option")
  (mText: "string option")

record Update =
  uMessage :: "TgMessage option"
  EditedMessage :: "TgMessage option"

text \<open>
  What \<open>chatEvent\<close> reads of the channel and its client: the time the channel was created,
  the results of \<open>userPhotoURL\<close> (its string) and \<open>mediaURL\<close> (None for \<open>ok = false\<close>), which
  depend on the client's tables and on \<open>net/url\<close>, and the library function
  \<open>strings.TrimSpace\<close>.
\<close>

record TgChannel =
  created :: int
  userPhotoURL :: "64 word \<Rightarrow> string"
  mediaURL :: "string \<Rightarrow> string option"
  TrimSpace :: "string \<Rightarrow> string"

text \<open>A run-time panic of the Go program: the dereference of a nil pointer.\<close>

datatype panic = NilDereference

definition chatMessageID :: "TgMessage \<Rightarrow> MessageID" where
  "chatMessageID m = FormatUint (unat (MessageID m))"

definition messageText :: "TgMessage \<Rightarrow> string" where
  "messageText m = (case mText m of None \<Rightarrow> [] | Some t \<Rightarrow> t)"

text \<open>\<open>chatUser\<close> reads \<open>user.FirstName\<close> first: it panics on a nil \<open>user\<close>.\<close>

definition chatUser :: "TgChannel \<Rightarrow> TgUser option \<Rightarrow> panic + User" where
  "chatUser c user =
     (case user of
        None \<Rightarrow> Inl NilDereference
      | Some usr \<Rightarrow>
          (let name = TrimSpace c (FirstName usr @ '' '' @ LastName usr);
               nick = (if Username usr = [] then name else Username usr)
           in Inr \<lparr>UID = Itoa (sint (tgID usr)), Nick = nick, FullName = name,
                   DisplayName = name, PhotoURL = userPhotoURL c (tgID usr)\<rparr>))"

definition chatMessage :: "TgChannel \<Rightarrow> TgMessage \<Rightarrow> panic + Message" where
  "chatMessage c m =
     (case chatUser c (mFrom m) of
        Inl p \<Rightarrow> Inl p
      | Inr usr \<Rightarrow> Inr \<lparr>ID = chatMessageID m, From = usr, Text = messageText m\<rparr>)"

text \<open>
  The inner \<open>switch\<close> of \<open>chatEvent\<close>, on a message with a sender: first the case of a
  reply, then (\<open>memberEvent\<close>) the cases of a new member, a member who left, a document,
  a sticker and a text. A case that returns nothing falls out of the switch to the
  final \<open>return nil, nil\<close> (\<open>Inr None\<close>).
\<close>

definition memberEvent :: "TgChannel \<Rightarrow> TgMessage \<Rightarrow> panic + Event option" where
  "memberEvent c m =
     (if NewChatMember m \<noteq> None then
        (case chatUser c (NewChatMember m) of
           Inl p \<Rightarrow> Inl p
         | Inr who \<Rightarrow> Inr (Some (JoinEv who)))
      else if LeftChatMember m \<noteq> None then
        (case chatUser c (NewChatMember m) of
           Inl p \<Rightarrow> Inl p
         | Inr who \<Rightarrow> Inr (Some (LeaveEv who)))
      else case Document m of
        Some fileID \<Rightarrow>
          (case mediaURL c fileID of
             Some url \<Rightarrow>
               (case chatUser c (mFrom m) of
                  Inl p \<Rightarrow> Inl p
                | Inr usr \<Rightarrow>
                    Inr (Some (MessageEv \<lparr>ID = chatMessageID m, From = usr,
                                           Text = ''/me shared a file: '' @ url\<rparr>)))
           | None \<Rightarrow> Inr None)
      | None \<Rightarrow>
          (case Sticker m of
             Some fileID \<Rightarrow>
               (case mediaURL c fileID of
                  Some url \<Rightarrow>
                    (case chatUser c (mFrom m) of
                       Inl p \<Rightarrow> Inl p
                     | Inr usr \<Rightarrow>
                         Inr (Some (MessageEv \<lparr>ID = chatMessageID m, From = usr,
                                                Text = ''/me sent a sticker: '' @ url\<rparr>)))
                | None \<Rightarrow> Inr None)
           | None \<Rightarrow>
               (case mText m of
                  Some t \<Rightarrow> map_sum id (\<lambda>x. Some (MessageEv x)) (chatMessage c m)
                | None \<Rightarrow> Inr None)))"

definition messageEvent :: "TgChannel \<Rightarrow> TgMessage \<Rightarrow> panic + Event option" where
  "messageEvent c m =
     (case ReplyToMessage m of
        None \<Rightarrow> memberEvent c m
      | Some r \<Rightarrow>
          (if mFrom r \<noteq> None then
             (case chatMessage c r of
                Inl p \<Rightarrow> Inl p
              | Inr replyTo \<Rightarrow>
                  (case chatMessage c m of
                     Inl p \<Rightarrow> Inl p
                   | Inr reply \<Rightarrow> Inr (Some (ReplyEv replyTo reply))))
           else memberEvent c m))"

definition before :: "TgMessage option \<Rightarrow> int \<Rightarrow> bool" where
  "before m t = (case m of None \<Rightarrow> False | Some x \<Rightarrow> mTime x < t)"

definition chatEvent :: "TgChannel \<Rightarrow> Update \<Rightarrow> panic + Event option" where
  "chatEvent ch u =
     (if before (uMessage u) (created ch) then Inr None
      else if before (EditedMessage u) (created ch) then Inr None
      else case uMessage u of
        Some m \<Rightarrow> (if mFrom m = None then Inr None else messageEvent ch m)
      | None \<Rightarrow>
          (case EditedMessage u of
             Some m \<Rightarrow> Inr (Some (EditEv (chatMessageID m) (chatMessageID m) (messageText m)))
           | None \<Rightarrow> Inr None))"

section \<open>Concrete bridges, used to run the definitions\<close>

definition chA :: Channel where
  "chA = Backend 0 ''general'' ''slack''"

definition chB :: Channel where
  "chB = Backend 1 ''#velour'' ''irc''"

definition chC :: Channel where
  "chC = Backend 2 ''Velour'' ''Telegram''"

definition alice :: User where
  "alice = \<lparr>UID = ''u1'', Nick = ''alice'', FullName = ''Alice'', DisplayName = ''Alice'',
            PhotoURL = []\<rparr>"

definition bot :: User where
  "bot = \<lparr>UID = ''u0'', Nick = ''bot'', FullName = ''Bot'', DisplayName = ''Bot'',
          PhotoURL = []\<rparr>"

text \<open>The channel a call is made on, and the text it carries.\<close>

fun callChan :: "Call \<Rightarrow> Channel" where
  "callChan (Send ch t) = ch"
| "callChan (SendAs ch u t) = ch"
| "callChan (Reply ch m t) = ch"
| "callChan (ReplyAs ch u m t) = ch"
| "callChan (Edit ch i t) = ch"
| "callChan (Delete ch i) = ch"

fun callText :: "Call \<Rightarrow> string" where
  "callText (Send ch t) = t"
| "callText (SendAs ch u t) = t"
| "callText (Reply ch m t) = t"
| "callText (ReplyAs ch u m t) = t"
| "callText (Edit ch i t) = t"
| "callText (Delete ch i) = []"

text \<open>
  Backends that accept every call. A message sent to a channel gets the name of the
  channel and \<open>tag\<close> as its identifier, but on \<open>chB\<close> the text of the message, as the IRC
  adapter does (src/chat/irc/client.go, \<open>Send\<close>); an edit returns the identifier \<open>tag\<close>.
\<close>

definition okWorld :: "string \<Rightarrow> World" where
  "okWorld tag =
     \<lparr>sendResult = (\<lambda>c. Inr \<lparr>ID = (if callChan c = chB then callText c
                                      else Name (callChan c) @ tag),
                               From = bot, Text = callText c\<rparr>),
      editResult = (\<lambda>c. Inr tag),
      deleteResult = (\<lambda>c. None),
      finish = []\<rparr>"

text \<open>Backends on which every call fails with the error \<open>err\<close>.\<close>

definition failWorld :: "error \<Rightarrow> World" where
  "failWorld err =
     \<lparr>sendResult = (\<lambda>c. Inl err),
      editResult = (\<lambda>c. Inl err),
      deleteResult = (\<lambda>c. Some err),
      finish = []\<rparr>"

text \<open>
  Two entries of a log: \<open>entry0\<close> for a message \<open>hello\<close> from \<open>chA\<close> with a copy on \<open>chB\<close> and
  none on \<open>chC\<close>, \<open>entry1\<close> for a message \<open>bye\<close> from \<open>chC\<close> with copies on \<open>chA\<close> and \<open>chB\<close>.
\<close>

definition entry0 :: logEntry where
  "entry0 = \<lparr>origin = chA,
             copies = [\<lparr>to = chB, msg = \<lparr>ID = ''hello'', From = bot, Text = ''hello''\<rparr>\<rparr>,
                       \<lparr>to = chA, msg = \<lparr>ID = ''a0'', From = alice, Text = ''hello''\<rparr>\<rparr>]\<rparr>"

definition entry1 :: logEntry where
  "entry1 = \<lparr>origin = chC,
             copies = [\<lparr>to = chA, msg = \<lparr>ID = ''general9'', From = bot, Text = ''bye''\<rparr>\<rparr>,
                       \<lparr>to = chB, msg = \<lparr>ID = ''bye'', From = bot, Text = ''bye''\<rparr>\<rparr>,
                       \<lparr>to = chC, msg = \<lparr>ID = ''c9'', From = alice, Text = ''bye''\<rparr>\<rparr>]\<rparr>"

text \<open>A Bridge over \<open>chA\<close> and \<open>chB\<close> whose log holds \<open>maxHistory\<close> entries.\<close>

definition fullBridge :: Bridge where
  "fullBridge = (New [chA, chB])\<lparr>log := replicate 500 entry0\<rparr>"

text \<open>
  A message \<open>hi\<close> that \<open>chA\<close> emits, and the Bridge over \<open>chA\<close> and \<open>chC\<close> after its poller
  has queued the message and the mux goroutine has relayed it: \<open>chC\<close> returned the copy
  \<open>Velour1\<close>.
\<close>

definition msgHi :: Message where
  "msgHi = \<lparr>ID = ''hi'', From = alice, Text = ''hi''\<rparr>"

definition bridgeAfterHi :: Bridge where
  "bridgeAfterHi =
     run DisplayName (New [chA, chC])
       [OpPoll chA (Inr (MessageEv msgHi)), OpMux (okWorld ''1'') CaseEvent]"

text \<open>
  A Telegram channel created at time 1000, and the update of a message sent at time
  2000 by the user \<open>ann\<close> that tells that \<open>ann\<close> left the chat.
\<close>

definition tgChan :: TgChannel where
  "tgChan = \<lparr>created = 1000, userPhotoURL = (\<lambda>i. []), mediaURL = (\<lambda>f. None),
             TrimSpace = (\<lambda>s. s)\<rparr>"

definition ann :: TgUser where
  "ann = \<lparr>tgID = 7, FirstName = ''Ann'', LastName = ''Lee'', Username = ''ann''\<rparr>"

definition leaveUpdate :: Update where
  "leaveUpdate =
     \<lparr>uMessage = Some (TgMessage 42 (Some ann) 2000 None None (Some ann) None None None),
      EditedMessage = None\<rparr>"

text \<open>
  Two calls of \<open>Send\<close> on a new Bridge over \<open>chA\<close> that run at the same time: the messages
  \<open>chA\<close> returned to each, and what each gets from \<open>nextID\<close> when the call with the
  text \<open>one\<close> takes the lock first.
\<close>

definition msgsOne :: "message list" where
  "msgsOne = [\<lparr>to = chA, msg = \<lparr>ID = ''general1'', From = bot, Text = ''one''\<rparr>\<rparr>]"

definition msgsTwo :: "message list" where
  "msgsTwo = [\<lparr>to = chA, msg = \<lparr>ID = ''general2'', From = bot, Text = ''two''\<rparr>\<rparr>]"

definition firstCall :: "Message \<times> logEntry \<times> Bridge" where
  "firstCall = takeID (New [chA]) ''one'' msgsOne"

definition secondCall :: "Message \<times> logEntry \<times> Bridge" where
  "secondCall = takeID (snd (snd firstCall)) ''two'' msgsTwo"

text \<open>The event of the message \<open>hi\<close> from \<open>chA\<close>, as its poller queues it.\<close>

definition evHi :: event where
  "evHi = \<lparr>evOrigin = chA, what = MessageEv msgHi\<rparr>"

text \<open>
  Backends on which every call fails, each channel with an error of its own, and where
  the goroutine at position 1 of a fan-out finishes before the one at position 0.
\<close>

definition twoFailWorld :: World where
  "twoFailWorld =
     \<lparr>sendResult = (\<lambda>c. Inl (ErrorsNew (Name (callChan c) @ '' is down''))),
      editResult = (\<lambda>c. Inl (ErrorsNew (Name (callChan c) @ '' is down''))),
      deleteResult = (\<lambda>c. Some (ErrorsNew (Name (callChan c) @ '' is down''))),
      finish = [1, 0]\<rparr>"

text \<open>
  A Bridge over \<open>chA\<close>, \<open>chB\<close> and \<open>chC\<close> whose log holds \<open>maxHistory\<close> entries with
  identifiers that differ from entry to entry on every channel: first \<open>entryM\<close>, the
  entry of a message \<open>lunch?\<close> from \<open>chA\<close> with the copy \<open>1000\<close> on the Telegram channel
  \<open>chC\<close>, then the entries \<open>numbered 1\<close>, ..., \<open>numbered 499\<close>. \<open>replyM\<close> is a reply on
  \<open>chC\<close> to the copy \<open>1000\<close>.
\<close>

definition entryM :: logEntry where
  "entryM = \<lparr>origin = chA,
             copies = [\<lparr>to = chB, msg = \<lparr>ID = ''lunch?'', From = bot, Text = ''lunch?''\<rparr>\<rparr>,
                       \<lparr>to = chC, msg = \<lparr>ID = ''1000'', From = bot, Text = ''lunch?''\<rparr>\<rparr>,
                       \<lparr>to = chA, msg = \<lparr>ID = ''a1000'', From = alice, Text = ''lunch?''\<rparr>\<rparr>]\<rparr>"

definition numbered :: "nat \<Rightarrow> logEntry" where
  "numbered k =
     \<lparr>origin = chA,
      copies = [\<lparr>to = chB, msg = \<lparr>ID = ''m'' @ Itoa (int k), From = bot,
                                  Text = ''m'' @ Itoa (int k)\<rparr>\<rparr>,
                \<lparr>to = chC, msg = \<lparr>ID = Itoa (1000 + int k), From = bot,
                                  Text = ''m'' @ Itoa (int k)\<rparr>\<rparr>,
                \<lparr>to = chA, msg = \<lparr>ID = ''a'' @ Itoa (1000 + int k), From = alice,
                                  Text = ''m'' @ Itoa (int k)\<rparr>\<rparr>]\<rparr>"

definition otherEntries :: "logEntry list" where
  "otherEntries = map numbered [1..<500]"

definition fullUnique :: Bridge where
  "fullUnique = (New [chA, chB, chC])\<lparr>log := entryM # otherEntries\<rparr>"

definition replyM :: event where
  "replyM =
     \<lparr>evOrigin = chC,
      what = ReplyEv \<lparr>ID = ''1000'', From = bot, Text = ''lunch?''\<rparr>
                     \<lparr>ID = ''1501'', From = alice, Text = ''yes''\<rparr>\<rparr>"

section \<open>The correlation log is bounded\<close>

lemma logMessage_log: "log (logMessage b e) = take maxHistory (log b @ [e])"
  by (simp add: logMessage_def Let_def)

lemma relay_log:
  "log (snd (snd (relay u w b ev))) = log b
   \<or> (\<exists>e. log (snd (snd (relay u w b ev))) = take maxHistory (log b @ [e]))"
  by (auto simp: relay_def Let_def logMessage_log split: Event.splits prod.splits sum.splits)

lemma finishSend_log:
  "log (snd (snd (finishSend b text r))) = log b
   \<or> (\<exists>e. log (snd (snd (finishSend b text r))) = take maxHistory (log b @ [e]))"
  by (auto simp: finishSend_def takeID_def nextID_def Let_def logMessage_log
        split: prod.splits sum.splits)

lemma step_log:
  "log (step u b x) = log b \<or> (\<exists>e. log (step u b x) = take maxHistory (log b @ [e]))"
proof (cases x)
  case (OpPoll ch r)
  then show ?thesis
    by (auto simp: poll_def split: sum.splits option.splits if_splits)
next
  case (OpMux w sel)
  show ?thesis
  proof (cases "mux u w sel b")
    case None
    with OpMux show ?thesis by simp
  next
    case (Some a)
    obtain calls b' where a: "a = (calls, b')" by (cases a)
    show ?thesis
    proof (cases sel)
      case CaseClosed
      with Some a OpMux show ?thesis by (auto simp: mux_def split: if_splits)
    next
      case CasePollError
      with Some a OpMux show ?thesis by (auto simp: mux_def split: if_splits option.splits)
    next
      case CaseEvent
      from Some a CaseEvent obtain ev rest where
        q: "eventsMux b = ev # rest" and nd: "\<not> muxDone b"
        by (auto simp: mux_def split: if_splits list.splits)
      obtain cs err b1 where r: "relay u w (b\<lparr>eventsMux := rest\<rparr>) ev = (cs, err, b1)"
        by (cases "relay u w (b\<lparr>eventsMux := rest\<rparr>) ev") auto
      from relay_log [of u w "b\<lparr>eventsMux := rest\<rparr>" ev] r
      have l: "log b1 = log b \<or> (\<exists>e. log b1 = take maxHistory (log b @ [e]))" by simp
      from Some a CaseEvent q nd r have "log b' = log b1"
        by (auto simp: mux_def split: option.splits)
      with l OpMux Some a show ?thesis by simp
    qed
  qed
next
  case OpRecvCancel
  then show ?thesis by (auto simp: recvCancel_def)
next
  case OpReceive
  then show ?thesis by (auto simp: Receive_def split: list.splits)
next
  case OpClose
  then show ?thesis by (simp add: CloseRequest_def)
next
  case (OpSend w t)
  then show ?thesis using finishSend_log by (simp add: BridgeSend_def)
next
  case (OpSendAs w sendAs t)
  then show ?thesis using finishSend_log by (simp add: BridgeSendAs_def)
next
  case (OpReply w replyTo t)
  then show ?thesis using finishSend_log by (simp add: BridgeReply_def)
next
  case (OpReplyAs w sendAs replyTo t)
  then show ?thesis using finishSend_log by (simp add: BridgeReplyAs_def)
next
  case (OpTakeID t msgs)
  then show ?thesis by (simp add: takeID_def nextID_def Let_def)
next
  case (OpLog entry)
  then show ?thesis by (auto simp: logMessage_log)
qed

lemma run_log_length:
  "length (log b) \<le> maxHistory \<Longrightarrow> length (log (run u b ops)) \<le> maxHistory"
proof (induction ops arbitrary: b)
  case Nil
  then show ?case by (simp add: run_def)
next
  case (Cons x ops)
  from step_log [of u b x] Cons.prems have "length (log (step u b x)) \<le> maxHistory"
    by auto
  from Cons.IH [OF this] show ?case by (simp add: run_def)
qed

lemma run_log_full:
  "length (log b) = maxHistory \<Longrightarrow> log (run u b ops) = log b"
proof (induction ops arbitrary: b)
  case Nil
  then show ?case by (simp add: run_def)
next
  case (Cons x ops)
  from step_log [of u b x] Cons.prems have s: "log (step u b x) = log b"
    by auto
  with Cons.prems have "length (log (step u b x)) = maxHistory" by simp
  from Cons.IH [OF this] s show ?case by (simp add: run_def)
qed

text \<open>
  Claim C3. The log of a Bridge never holds more than \<open>maxHistory\<close> = 500 entries,
  whatever the Bridge does. \<open>logMessage\<close> appends the entry and keeps the first 500
  entries of the result: on a log of 500 entries the entry just appended is the one
  discarded, and from then on no operation of the Bridge changes the log.
\<close>

theorem log_never_exceeds_maxHistory:
  "length (log (run u (New chans) ops)) \<le> maxHistory
   \<and> log (logMessage b e) = take maxHistory (log b @ [e])
   \<and> (length (log b) = maxHistory \<longrightarrow>
        log (logMessage b e) = log b \<and> log (run u b ops') = log b)"
proof -
  have "length (log (New chans)) \<le> maxHistory"
    by (simp add: New_def)
  then have "length (log (run u (New chans) ops)) \<le> maxHistory"
    by (rule run_log_length)
  moreover have "length (log b) = maxHistory \<longrightarrow> log (logMessage b e) = log b"
    by (simp add: logMessage_log)
  ultimately show ?thesis
    by (simp add: logMessage_log run_log_full)
qed

theorem log_never_exceeds_maxHistory_witness:
  "length (log fullBridge) = maxHistory
   \<and> log (logMessage fullBridge entry0) = log fullBridge
   \<and> log (run DisplayName fullBridge [OpSend (okWorld ''1'') ''hi'', OpClose]) = log fullBridge"
  using log_never_exceeds_maxHistory
          [of DisplayName "[]" "[]" fullBridge entry0 "[OpSend (okWorld ''1'') ''hi'', OpClose]"]
  by (simp add: fullBridge_def maxHistory_def)

section \<open>What a relay and a send leave unchanged\<close>

lemma relay_only_log: "\<exists>l. snd (snd (relay u w b ev)) = b\<lparr>log := l\<rparr>"
proof -
  have b: "b = b\<lparr>log := log b\<rparr>" by simp
  have l: "\<And>e. logMessage b e = b\<lparr>log := log (logMessage b e)\<rparr>"
    by (simp add: logMessage_def Let_def)
  show ?thesis
    unfolding relay_def Let_def
    by (auto split: Event.splits prod.splits sum.splits intro: exI [of _ "log b"] l b)
qed

lemma finishSend_frame:
  "\<exists>l n. snd (snd (finishSend b t r)) = b\<lparr>nextID_val := n, log := l\<rparr>"
proof (cases r)
  case (Pair calls res)
  show ?thesis
  proof (cases res)
    case (Inl err)
    have "b = b\<lparr>nextID_val := nextID_val b, log := log b\<rparr>" by simp
    then have "\<exists>l n. b = b\<lparr>nextID_val := n, log := l\<rparr>" by blast
    with Pair Inl show ?thesis
      by (simp add: finishSend_def)
  next
    case (Inr msgs)
    with Pair show ?thesis
      by (auto simp: finishSend_def takeID_def nextID_def Let_def logMessage_def)
  qed
qed

lemma step_muxDone: "muxDone b \<Longrightarrow> muxDone (step u b x)"
proof (cases x)
  case (OpPoll ch r)
  assume "muxDone b"
  with OpPoll show ?thesis
    by (auto simp: poll_def split: sum.splits option.splits if_splits)
next
  case (OpMux w sel)
  assume "muxDone b"
  with OpMux show ?thesis by (simp add: mux_def)
next
  case OpRecvCancel
  assume "muxDone b"
  with OpRecvCancel show ?thesis by (simp add: recvCancel_def)
next
  case OpReceive
  assume "muxDone b"
  with OpReceive show ?thesis by (auto simp: Receive_def split: list.splits)
next
  case OpClose
  assume "muxDone b"
  with OpClose show ?thesis by (simp add: CloseRequest_def)
next
  case (OpSend w t)
  assume m: "muxDone b"
  from finishSend_frame [of b t "sendMessage w (channels b) None None t"] m OpSend
  show ?thesis by (auto simp: BridgeSend_def)
next
  case (OpSendAs w sendAs t)
  assume m: "muxDone b"
  from finishSend_frame [of b t "sendMessage w (channels b) (Some sendAs) None t"] m OpSendAs
  show ?thesis by (auto simp: BridgeSendAs_def)
next
  case (OpReply w replyTo t)
  assume m: "muxDone b"
  from finishSend_frame
         [of b t "sendMessage w (channels b) None (Some (makeFindMessage b BridgeChan (ID replyTo))) t"]
       m OpReply
  show ?thesis by (auto simp: BridgeReply_def)
next
  case (OpReplyAs w sendAs replyTo t)
  assume m: "muxDone b"
  from finishSend_frame
         [of b t "sendMessage w (channels b) (Some sendAs)
                    (Some (makeFindMessage b BridgeChan (ID replyTo))) t"]
       m OpReplyAs
  show ?thesis by (auto simp: BridgeReplyAs_def)
next
  case (OpTakeID t msgs)
  assume "muxDone b"
  with OpTakeID show ?thesis by (simp add: takeID_def nextID_def Let_def)
next
  case (OpLog entry)
  assume "muxDone b"
  with OpLog show ?thesis by (simp add: logMessage_def Let_def)
qed

lemma run_muxDone: "muxDone b \<Longrightarrow> muxDone (run u b ops)"
  by (induction ops arbitrary: b) (simp_all add: run_def step_muxDone)

lemma relay_closeError: "closeError (snd (snd (relay u w b ev))) = closeError b"
proof -
  from relay_only_log [of u w b ev] obtain l where "snd (snd (relay u w b ev)) = b\<lparr>log := l\<rparr>" ..
  then show ?thesis by simp
qed

lemma relay_muxDone: "muxDone (snd (snd (relay u w b ev))) = muxDone b"
proof -
  from relay_only_log [of u w b ev] obtain l where "snd (snd (relay u w b ev)) = b\<lparr>log := l\<rparr>" ..
  then show ?thesis by simp
qed

lemma finishSend_closeError: "closeError (snd (snd (finishSend b t r))) = closeError b"
proof -
  from finishSend_frame [of b t r] obtain l n where
    "snd (snd (finishSend b t r)) = b\<lparr>nextID_val := n, log := l\<rparr>" by blast
  then show ?thesis by simp
qed

lemma finishSend_muxDone: "muxDone (snd (snd (finishSend b t r))) = muxDone b"
proof -
  from finishSend_frame [of b t r] obtain l n where
    "snd (snd (finishSend b t r)) = b\<lparr>nextID_val := n, log := l\<rparr>" by blast
  then show ?thesis by simp
qed

lemma mux_closeError:
  assumes "mux u w sel b = Some (calls, b')" and "closeError b = None"
  shows "closeError b' = None \<or> muxDone b'"
proof (cases sel)
  case CaseClosed
  with assms show ?thesis by (auto simp: mux_def split: if_splits)
next
  case CasePollError
  with assms show ?thesis by (auto simp: mux_def split: if_splits option.splits)
next
  case CaseEvent
  from assms CaseEvent obtain ev rest where
    q: "eventsMux b = ev # rest" and nd: "\<not> muxDone b"
    by (auto simp: mux_def split: if_splits list.splits)
  obtain cs err b1 where r: "relay u w (b\<lparr>eventsMux := rest\<rparr>) ev = (cs, err, b1)"
    by (cases "relay u w (b\<lparr>eventsMux := rest\<rparr>) ev") auto
  from relay_closeError [of u w "b\<lparr>eventsMux := rest\<rparr>" ev] r assms(2)
  have "closeError b1 = None" by simp
  with assms(1) CaseEvent q nd r show ?thesis
    by (auto simp: mux_def split: option.splits)
qed

lemma step_closeError:
  assumes "closeError b = None \<or> muxDone b"
  shows "closeError (step u b x) = None \<or> muxDone (step u b x)"
proof (cases "muxDone b")
  case True
  then show ?thesis by (simp add: step_muxDone)
next
  case False
  with assms have c: "closeError b = None" by simp
  show ?thesis
  proof (cases x)
    case (OpPoll ch r)
    with c show ?thesis
      by (auto simp: poll_def split: sum.splits option.splits if_splits)
  next
    case (OpMux w sel)
    show ?thesis
    proof (cases "mux u w sel b")
      case None
      with OpMux c show ?thesis by simp
    next
      case (Some a)
      obtain calls b' where a: "a = (calls, b')" by (cases a)
      from mux_closeError [of u w sel b calls b'] Some a c OpMux show ?thesis by simp
    qed
  next
    case OpRecvCancel
    with c show ?thesis by (simp add: recvCancel_def)
  next
    case OpReceive
    with c show ?thesis by (auto simp: Receive_def split: list.splits)
  next
    case OpClose
    with c show ?thesis by (simp add: CloseRequest_def)
  next
    case (OpSend w t)
    with c show ?thesis by (simp add: BridgeSend_def finishSend_closeError)
  next
    case (OpSendAs w sendAs t)
    with c show ?thesis by (simp add: BridgeSendAs_def finishSend_closeError)
  next
    case (OpReply w replyTo t)
    with c show ?thesis by (simp add: BridgeReply_def finishSend_closeError)
  next
    case (OpReplyAs w sendAs replyTo t)
    with c show ?thesis by (simp add: BridgeReplyAs_def finishSend_closeError)
  next
    case (OpTakeID t msgs)
    with c show ?thesis by (simp add: takeID_def nextID_def Let_def)
  next
    case (OpLog entry)
    with c show ?thesis by (simp add: logMessage_def Let_def)
  qed
qed

lemma run_closeError:
  "closeError b = None \<or> muxDone b \<Longrightarrow> closeError (run u b ops) = None \<or> muxDone (run u b ops)"
proof (induction ops arbitrary: b)
  case Nil
  then show ?case by (simp add: run_def)
next
  case (Cons x ops)
  from Cons.IH [OF step_closeError [OF Cons.prems]] show ?case by (simp add: run_def)
qed

section \<open>Pollers and the terminal error\<close>

lemma poll_error_only:
  "poll ch (Inl err) b =
     Some (Exited,
           if err = Canceled \<or> err = DeadlineExceeded then b
           else case pollError b of None \<Rightarrow> b\<lparr>pollError := Some err\<rparr> | Some e \<Rightarrow> b)"
  by (simp add: poll_def)

lemma run_poll_errors:
  "run u b (map (\<lambda>(c, e). OpPoll c (Inl e)) reports) =
     b\<lparr>pollError := (case pollError b of
                        Some e \<Rightarrow> Some e
                      | None \<Rightarrow> find (\<lambda>e. e \<noteq> Canceled \<and> e \<noteq> DeadlineExceeded) (map snd reports))\<rparr>"
proof (induction reports arbitrary: b)
  case Nil
  then show ?case by (simp add: run_def split: option.splits)
next
  case (Cons r reports)
  obtain c e where r: "r = (c, e)" by (cases r)
  have "run u b (map (\<lambda>(c, e). OpPoll c (Inl e)) (r # reports)) =
        run u (step u b (OpPoll c (Inl e))) (map (\<lambda>(c, e). OpPoll c (Inl e)) reports)"
    by (simp add: run_def r)
  also note Cons.IH
  finally show ?case
    by (auto simp: r poll_error_only split: option.splits)
qed

lemma step_closeError_done: "muxDone b \<Longrightarrow> closeError (step u b x) = closeError b"
proof (cases x)
  case (OpPoll ch r)
  then show ?thesis
    by (auto simp: poll_def split: sum.splits option.splits if_splits)
next
  case (OpMux w sel)
  assume "muxDone b"
  with OpMux show ?thesis by (simp add: mux_def)
next
  case OpRecvCancel
  then show ?thesis by (simp add: recvCancel_def)
next
  case OpReceive
  then show ?thesis by (auto simp: Receive_def split: list.splits)
next
  case OpClose
  then show ?thesis by (simp add: CloseRequest_def)
next
  case (OpSend w t)
  then show ?thesis by (simp add: BridgeSend_def finishSend_closeError)
next
  case (OpSendAs w sendAs t)
  then show ?thesis by (simp add: BridgeSendAs_def finishSend_closeError)
next
  case (OpReply w replyTo t)
  then show ?thesis by (simp add: BridgeReply_def finishSend_closeError)
next
  case (OpReplyAs w sendAs replyTo t)
  then show ?thesis by (simp add: BridgeReplyAs_def finishSend_closeError)
next
  case (OpTakeID t msgs)
  then show ?thesis by (simp add: takeID_def nextID_def Let_def)
next
  case (OpLog entry)
  then show ?thesis by (simp add: logMessage_def Let_def)
qed

lemma run_closeError_done: "muxDone b \<Longrightarrow> closeError (run u b ops) = closeError b"
proof (induction ops arbitrary: b)
  case Nil
  then show ?case by (simp add: run_def)
next
  case (Cons x ops)
  from Cons.prems have "muxDone (step u b x)" by (rule step_muxDone)
  from Cons.IH [OF this] Cons.prems show ?case
    by (simp add: run_def step_closeError_done)
qed

text \<open>
  Claim C9. An iteration of a poller whose \<open>Receive\<close> fails never blocks and ends the
  poller. A cancellation or deadline error leaves the Bridge as it is: nothing is
  reported. Any other error is put into \<open>pollError\<close> when the slot is free and dropped
  when a report is there already; over any sequence of failing pollers the slot
  keeps the first error reported. The mux goroutine forwards the error in the slot to
  \<open>closeError\<close> and returns, and nothing that happens afterwards, a later report
  included, replaces it.
\<close>

theorem poll_reports_first_error_only:
  "(err = Canceled \<or> err = DeadlineExceeded \<longrightarrow> poll ch (Inl err) b = Some (Exited, b))
   \<and> (err \<noteq> Canceled \<and> err \<noteq> DeadlineExceeded \<longrightarrow>
        poll ch (Inl err) b =
          Some (Exited, case pollError b of None \<Rightarrow> b\<lparr>pollError := Some err\<rparr> | Some e \<Rightarrow> b))
   \<and> run u b (map (\<lambda>(c, e). OpPoll c (Inl e)) reports) =
        b\<lparr>pollError := (case pollError b of
                           Some e \<Rightarrow> Some e
                         | None \<Rightarrow> find (\<lambda>e. e \<noteq> Canceled \<and> e \<noteq> DeadlineExceeded)
                                     (map snd reports))\<rparr>
   \<and> (\<not> muxDone b \<and> pollError b = Some first \<longrightarrow>
        (\<exists>b'. mux u w CasePollError b = Some ([], b') \<and> muxDone b'
              \<and> (\<forall>ops. closeError (run u b' ops) = Some first)))"
proof -
  have "\<not> muxDone b \<and> pollError b = Some first \<longrightarrow>
        (\<exists>b'. mux u w CasePollError b = Some ([], b') \<and> muxDone b'
              \<and> (\<forall>ops. closeError (run u b' ops) = Some first))"
    by (simp add: mux_def run_closeError_done)
  then show ?thesis
    by (simp add: poll_error_only run_poll_errors)
qed

theorem poll_reports_first_error_only_witness:
  "poll chA (Inl Canceled) (New [chA, chB]) = Some (Exited, New [chA, chB])
   \<and> poll chB (Inl EOF) (New [chA, chB]) = Some (Exited, (New [chA, chB])\<lparr>pollError := Some EOF\<rparr>)
   \<and> poll chA (Inl (ErrorsNew ''reset'')) ((New [chA, chB])\<lparr>pollError := Some EOF\<rparr>)
       = Some (Exited, (New [chA, chB])\<lparr>pollError := Some EOF\<rparr>)
   \<and> (\<exists>b'. mux DisplayName (okWorld ''1'') CasePollError ((New [chA, chB])\<lparr>pollError := Some EOF\<rparr>)
              = Some ([], b')
           \<and> closeError (run DisplayName b' [OpPoll chA (Inl (ErrorsNew ''reset''))]) = Some EOF)"
  using poll_reports_first_error_only
          [of Canceled chA "New [chA, chB]" DisplayName "[]" EOF "okWorld ''1''"]
        poll_reports_first_error_only
          [of EOF chB "New [chA, chB]" DisplayName "[]" EOF "okWorld ''1''"]
        poll_reports_first_error_only
          [of "ErrorsNew ''reset''" chA "(New [chA, chB])\<lparr>pollError := Some EOF\<rparr>" DisplayName
              "[]" EOF "okWorld ''1''"]
  by (auto simp: New_def)

lemma CloseReturn_not_EOF: "CloseReturn b \<noteq> Some (Some EOF)"
  by (auto simp: CloseReturn_def split: option.splits)

lemma New_running: "closeError (New chans) = None \<or> muxDone (New chans)"
  by (simp add: New_def)

text \<open>
  Claim C10. \<open>io.EOF\<close> from a bridged channel's \<open>Receive\<close> is an error like any other
  to the poller: it is reported in \<open>pollError\<close> and the poller returns; the mux goroutine
  forwards it to \<open>closeError\<close> and returns, and \<open>Close\<close> gives the new error
  "unexpected EOF" in its place. \<open>Close\<close> never returns \<open>io.EOF\<close>. When the mux
  goroutine of a running Bridge takes the case of the closed channel \<open>closed\<close>, \<open>Close\<close>
  returns nil.
\<close>

theorem eof_is_fatal_and_rewritten:
  "poll ch (Inl EOF) b =
     Some (Exited, case pollError b of None \<Rightarrow> b\<lparr>pollError := Some EOF\<rparr> | Some e \<Rightarrow> b)
   \<and> CloseReturn (run u (New chans) [OpPoll ch (Inl EOF), OpMux w CasePollError, OpClose])
        = Some (Some (ErrorsNew ''unexpected EOF''))
   \<and> CloseReturn b \<noteq> Some (Some EOF)
   \<and> (\<not> muxDone b \<and> pollError b = Some EOF \<longrightarrow>
        (\<exists>b'. mux u w CasePollError b = Some ([], b') \<and> muxDone b'
              \<and> CloseReturn b' = Some (Some (ErrorsNew ''unexpected EOF''))))
   \<and> (\<not> muxDone (run u (New chans) ops) \<and> closed (run u (New chans) ops) \<longrightarrow>
        (\<exists>b'. mux u w CaseClosed (run u (New chans) ops) = Some ([], b') \<and> muxDone b'
              \<and> CloseReturn b' = Some None))"
proof -
  have 1: "poll ch (Inl EOF) b =
     Some (Exited, case pollError b of None \<Rightarrow> b\<lparr>pollError := Some EOF\<rparr> | Some e \<Rightarrow> b)"
    by (simp add: poll_def)
  have 2: "CloseReturn (run u (New chans) [OpPoll ch (Inl EOF), OpMux w CasePollError, OpClose])
        = Some (Some (ErrorsNew ''unexpected EOF''))"
    by (simp add: run_def poll_def mux_def New_def CloseRequest_def CloseReturn_def)
  have 4: "\<not> muxDone b \<and> pollError b = Some EOF \<longrightarrow>
        (\<exists>b'. mux u w CasePollError b = Some ([], b') \<and> muxDone b'
              \<and> CloseReturn b' = Some (Some (ErrorsNew ''unexpected EOF'')))"
    by (simp add: mux_def CloseReturn_def)
  have 5: "\<not> muxDone (run u (New chans) ops) \<and> closed (run u (New chans) ops) \<longrightarrow>
        (\<exists>b'. mux u w CaseClosed (run u (New chans) ops) = Some ([], b') \<and> muxDone b'
              \<and> CloseReturn b' = Some None)"
  proof
    assume a: "\<not> muxDone (run u (New chans) ops) \<and> closed (run u (New chans) ops)"
    from run_closeError [OF New_running, of u chans ops] a
    have "closeError (run u (New chans) ops) = None" by simp
    with a show "\<exists>b'. mux u w CaseClosed (run u (New chans) ops) = Some ([], b') \<and> muxDone b'
              \<and> CloseReturn b' = Some None"
      by (simp add: mux_def CloseReturn_def)
  qed
  from 1 2 CloseReturn_not_EOF 4 5 show ?thesis by blast
qed

theorem eof_is_fatal_and_rewritten_witness:
  "(\<exists>b'. mux DisplayName (okWorld ''1'') CasePollError ((New [chA, chB])\<lparr>pollError := Some EOF\<rparr>)
            = Some ([], b')
         \<and> muxDone b' \<and> CloseReturn b' = Some (Some (ErrorsNew ''unexpected EOF'')))
   \<and> (\<exists>b'. mux DisplayName (okWorld ''1'') CaseClosed (run DisplayName (New [chA, chB]) [OpClose])
            = Some ([], b')
         \<and> muxDone b' \<and> CloseReturn b' = Some None)"
  using eof_is_fatal_and_rewritten
          [of chA "(New [chA, chB])\<lparr>pollError := Some EOF\<rparr>" DisplayName "[chA, chB]"
              "okWorld ''1''" "[OpClose]"]
  by (simp add: New_def run_def CloseRequest_def)

section \<open>Edit and Delete events\<close>

lemma firstError_None_iff: "firstError rs = None \<longleftrightarrow> (\<forall>r\<in>set rs. r = None)"
  by (induction rs rule: firstError.induct) auto

lemma firstError_Some: "firstError rs = Some e \<Longrightarrow> Some e \<in> set rs"
  by (induction rs rule: firstError.induct) auto

lemma Wait_None_iff: "Wait fin rs = None \<longleftrightarrow> (\<forall>r\<in>set rs. r = None)"
  by (auto simp: Wait_def firstError_None_iff)

lemma Wait_Some: "Wait fin rs = Some e \<Longrightarrow> Some e \<in> set rs"
proof -
  assume "Wait fin rs = Some e"
  then have "Some e \<in> set (map (\<lambda>i. rs ! i) (filter (\<lambda>i. i < length rs) fin) @ rs)"
    unfolding Wait_def by (rule firstError_Some)
  then show ?thesis by auto
qed

lemma makeFindMessage_miss:
  "\<forall>e\<in>set (log b). \<not> matches orig i e \<Longrightarrow> makeFindMessage b orig i = (\<lambda>ch. None)"
proof -
  assume "\<forall>e\<in>set (log b). \<not> matches orig i e"
  then have "find (matches orig i) (log b) = None"
    by (simp add: find_None_iff)
  then show ?thesis by (simp add: makeFindMessage_def)
qed

lemma editMessage_no_copies: "editMessage w chans (\<lambda>ch. None) t = ([], None)"
  by (simp add: editMessage_def editOne_def Wait_None_iff)

lemma deleteMessage_no_copies: "deleteMessage w chans (\<lambda>ch. None) = ([], None)"
  by (simp add: deleteMessage_def deleteOne_def Wait_None_iff)

lemma editMessage_calls_removeAll:
  "f ch = None \<Longrightarrow>
   fst (editMessage w chans f t) = fst (editMessage w (removeAll ch chans) f t)"
  by (induction chans) (auto simp: editMessage_def editOne_def)

lemma deleteMessage_calls_removeAll:
  "f ch = None \<Longrightarrow>
   fst (deleteMessage w chans f) = fst (deleteMessage w (removeAll ch chans) f)"
  by (induction chans) (auto simp: deleteMessage_def deleteOne_def)

lemma editMessage_calls_chan:
  "c \<in> set (fst (editMessage w chans f t)) \<Longrightarrow> f (callChan c) \<noteq> None"
  by (auto simp: editMessage_def editOne_def Let_def split: option.splits)

lemma deleteMessage_calls_chan:
  "c \<in> set (fst (deleteMessage w chans f)) \<Longrightarrow> f (callChan c) \<noteq> None"
  by (auto simp: deleteMessage_def deleteOne_def Let_def split: option.splits)

text \<open>
  Claim C6. An Edit or Delete event whose identifier matches no copy on the origin in
  any entry of the log makes no call on any channel, returns no error and leaves the
  Bridge as it is. A target channel on which the entry found has no copy is skipped:
  its goroutine makes no call and returns nil, and the calls made are those made
  without that channel among the targets.
\<close>

theorem edit_delete_noop_on_miss:
  "((\<forall>e\<in>set (log b). \<not> matches orig i e) \<longrightarrow>
       relay u w b \<lparr>evOrigin = orig, what = EditEv i newID t\<rparr> = ([], None, b)
     \<and> relay u w b \<lparr>evOrigin = orig, what = DeleteEv i\<rparr> = ([], None, b))
   \<and> (findMessage ch = None \<longrightarrow>
         editOne w findMessage t ch = ([], None)
       \<and> deleteOne w findMessage ch = ([], None)
       \<and> fst (editMessage w chans findMessage t)
           = fst (editMessage w (removeAll ch chans) findMessage t)
       \<and> fst (deleteMessage w chans findMessage)
           = fst (deleteMessage w (removeAll ch chans) findMessage)
       \<and> ch \<notin> callChan ` set (fst (editMessage w chans findMessage t))
       \<and> ch \<notin> callChan ` set (fst (deleteMessage w chans findMessage)))"
proof -
  have miss: "(\<forall>e\<in>set (log b). \<not> matches orig i e) \<longrightarrow>
       relay u w b \<lparr>evOrigin = orig, what = EditEv i newID t\<rparr> = ([], None, b)
     \<and> relay u w b \<lparr>evOrigin = orig, what = DeleteEv i\<rparr> = ([], None, b)"
    by (simp add: relay_def makeFindMessage_miss editMessage_no_copies deleteMessage_no_copies)
  have one: "findMessage ch = None \<longrightarrow>
         editOne w findMessage t ch = ([], None) \<and> deleteOne w findMessage ch = ([], None)"
    by (simp add: editOne_def deleteOne_def)
  have calls: "findMessage ch = None \<longrightarrow>
         fst (editMessage w chans findMessage t)
           = fst (editMessage w (removeAll ch chans) findMessage t)
       \<and> fst (deleteMessage w chans findMessage)
           = fst (deleteMessage w (removeAll ch chans) findMessage)"
    using editMessage_calls_removeAll deleteMessage_calls_removeAll by blast
  have none: "findMessage ch = None \<longrightarrow>
         ch \<notin> callChan ` set (fst (editMessage w chans findMessage t))
       \<and> ch \<notin> callChan ` set (fst (deleteMessage w chans findMessage))"
    using editMessage_calls_chan deleteMessage_calls_chan by blast
  from miss one calls none show ?thesis by blast
qed

theorem edit_delete_noop_on_miss_witness:
  "relay DisplayName (failWorld EOF) ((New [chA, chB, chC])\<lparr>log := [entry0]\<rparr>)
     \<lparr>evOrigin = chA, what = EditEv ''unknown'' ''unknown'' ''new text''\<rparr>
     = ([], None, (New [chA, chB, chC])\<lparr>log := [entry0]\<rparr>)
   \<and> relay DisplayName (failWorld EOF) ((New [chA, chB, chC])\<lparr>log := [entry0]\<rparr>)
       \<lparr>evOrigin = chA, what = DeleteEv ''unknown''\<rparr>
     = ([], None, (New [chA, chB, chC])\<lparr>log := [entry0]\<rparr>)
   \<and> makeFindMessage ((New [chA, chB, chC])\<lparr>log := [entry0]\<rparr>) chA ''a0'' chC = None
   \<and> fst (editMessage (failWorld EOF) [chB, chC]
            (makeFindMessage ((New [chA, chB, chC])\<lparr>log := [entry0]\<rparr>) chA ''a0'') ''new text'')
     = fst (editMessage (failWorld EOF) [chB]
            (makeFindMessage ((New [chA, chB, chC])\<lparr>log := [entry0]\<rparr>) chA ''a0'') ''new text'')"
proof -
  let ?b = "(New [chA, chB, chC])\<lparr>log := [entry0]\<rparr>"
  have h1: "\<forall>e\<in>set (log ?b). \<not> matches chA ''unknown'' e"
    by (simp add: matches_def entry0_def)
  have h2: "makeFindMessage ?b chA ''a0'' chC = None"
    by (simp add: makeFindMessage_def matches_def entry0_def chA_def chB_def chC_def)
  have r: "removeAll chC [chB, chC] = [chB]"
    by (simp add: chB_def chC_def)
  from edit_delete_noop_on_miss
         [where b = ?b and orig = chA and i = "''unknown''" and u = DisplayName
            and w = "failWorld EOF" and newID = "''unknown''" and t = "''new text''"
            and findMessage = "makeFindMessage ?b chA ''a0''" and ch = chC
            and chans = "[chB, chC]"]
       h1 h2 r
  show ?thesis by simp
qed

lemma bridgeAfterHi_eq:
  "bridgeAfterHi =
     (New [chA, chC])
       \<lparr>log := [\<lparr>origin = chA,
                 copies = [\<lparr>to = chC, msg = \<lparr>ID = ''Velour1'', From = bot, Text = ''hi''\<rparr>\<rparr>,
                           \<lparr>to = chA, msg = msgHi\<rparr>]\<rparr>],
        recvIn := [MessageEv msgHi]\<rparr>"
  by (simp add: bridgeAfterHi_def run_def poll_def mux_def relay_def New_def eventsMuxCap_def
        allChannelsExcept_def sendMessage_def sendCall_def okWorld_def Wait_def
        logMessage_def maxHistory_def Let_def chA_def chB_def chC_def msgHi_def)

text \<open>
  Claim C4. The code does not do this. After the relay of \<open>hi\<close> the log holds the copy
  \<open>Velour1\<close> on \<open>chC\<close>. The relay of an Edit of \<open>hi\<close> calls \<open>Edit\<close> on \<open>chC\<close> with \<open>Velour1\<close>;
  \<open>chC\<close> returns the new identifier \<open>2\<close>; the relay returns no error and the log is the
  same as before, so the lookup on \<open>chC\<close> still gives \<open>Velour1\<close>, and the relay of a
  second Edit calls \<open>Edit\<close> on \<open>chC\<close> with \<open>Velour1\<close> again.
\<close>

theorem edit_result_not_recorded:
  "relay DisplayName (okWorld ''2'') bridgeAfterHi
       \<lparr>evOrigin = chA, what = EditEv ''hi'' ''hi'' ''hi!''\<rparr>
     = ([Edit chC ''Velour1'' ''hi!''], None, bridgeAfterHi)
   \<and> editResult (okWorld ''2'') (Edit chC ''Velour1'' ''hi!'') = Inr ''2''
   \<and> makeFindMessage bridgeAfterHi chA ''hi'' chC
     = Some \<lparr>ID = ''Velour1'', From = bot, Text = ''hi''\<rparr>
   \<and> fst (relay DisplayName (okWorld ''3'') bridgeAfterHi
            \<lparr>evOrigin = chA, what = EditEv ''hi'' ''hi'' ''hi!!''\<rparr>)
     = [Edit chC ''Velour1'' ''hi!!'']"
  by (simp add: bridgeAfterHi_eq relay_def New_def allChannelsExcept_def editMessage_def
        editOne_def makeFindMessage_def matches_def okWorld_def Wait_def Let_def
        chA_def chB_def chC_def msgHi_def)

section \<open>Telegram: a member leaves the chat\<close>

lemma memberEvent_left_panics:
  "NewChatMember m = None \<Longrightarrow> LeftChatMember m \<noteq> None \<Longrightarrow> memberEvent c m = Inl NilDereference"
  by (simp add: memberEvent_def chatUser_def)

text \<open>
  Claim C8. The code does not do this. In the case \<open>msg.LeftChatMember != nil\<close>,
  \<open>chatEvent\<close> gives \<open>msg.NewChatMember\<close> to \<open>chatUser\<close>; that pointer is nil there (the
  case before took the messages where it is not), and \<open>chatUser\<close> dereferences it. On
  the update that tells that \<open>ann\<close> left, which passes the rules that discard updates,
  the mapping panics and returns no Leave event.
\<close>

theorem chatEvent_leave_panics:
  "chatEvent tgChan leaveUpdate = Inl NilDereference"
  by (simp add: chatEvent_def leaveUpdate_def tgChan_def before_def messageEvent_def
        memberEvent_def chatUser_def)

section \<open>The identifiers the Bridge issues\<close>

lemma ParseUint_snoc: "ParseUint (s @ [c]) = 10 * ParseUint s + (of_char c - 48)"
  by (simp add: ParseUint_def)

lemma ParseUint_FormatUint: "ParseUint (FormatUint n) = n"
proof (induction n rule: FormatUint.induct)
  case (1 n)
  show ?case
  proof (cases "n < 10")
    case True
    then show ?thesis
      by (subst FormatUint.simps) (simp add: ParseUint_def)
  next
    case False
    with "1" have "ParseUint (FormatUint (n div 10)) = n div 10" by simp
    with False show ?thesis
      by (subst FormatUint.simps) (simp add: ParseUint_snoc)
  qed
qed

lemma FormatUint_digits: "c \<in> set (FormatUint n) \<Longrightarrow> 48 \<le> (of_char c :: nat)"
proof (induction n rule: FormatUint.induct)
  case (1 n)
  show ?case
  proof (cases "n < 10")
    case True
    with "1.prems" show ?thesis
      by (subst (asm) FormatUint.simps) auto
  next
    case False
    with "1.prems" have "c \<in> set (FormatUint (n div 10)) \<or> c = char_of (48 + n mod 10)"
      by (subst (asm) FormatUint.simps) auto
    with "1.IH" False show ?thesis by auto
  qed
qed

lemma FormatUint_not_Nil: "FormatUint n \<noteq> []"
  by (subst FormatUint.simps) simp

lemma Atoi_Itoa: "Atoi (Itoa i) = i"
proof (cases "i < 0")
  case True
  then show ?thesis by (simp add: Atoi_def Itoa_def ParseUint_FormatUint)
next
  case False
  obtain c cs where f: "FormatUint (nat i) = c # cs"
    using FormatUint_not_Nil [of "nat i"] by (cases "FormatUint (nat i)") auto
  then have "c \<in> set (FormatUint (nat i))" by simp
  then have "48 \<le> (of_char c :: nat)" by (rule FormatUint_digits)
  then have "c \<noteq> CHR ''-''" by auto
  with False f show ?thesis
    using ParseUint_FormatUint [of "nat i"] by (simp add: Atoi_def Itoa_def)
qed

lemma takeID_ID: "ID (fst (takeID b t msgs)) = Itoa (sint (nextID_val b))"
  by (simp add: takeID_def nextID_def Let_def)

lemma takeID_next: "nextID_val (snd (snd (takeID b t msgs))) = nextID_val b + 1"
  by (simp add: takeID_def nextID_def Let_def)

lemma finishSend_Inr:
  "fst (snd (finishSend b t r)) = Inr m \<Longrightarrow>
   ID m = Itoa (sint (nextID_val b)) \<and> nextID_val (snd (snd (finishSend b t r))) = nextID_val b + 1"
  by (auto simp: finishSend_def takeID_def nextID_def logMessage_def Let_def
        split: prod.splits sum.splits)

lemma finishSend_Inl:
  "fst (snd (finishSend b t r)) = Inl e \<Longrightarrow> snd (snd (finishSend b t r)) = b"
  by (auto simp: finishSend_def split: prod.splits sum.splits)

lemma relay_nextID: "nextID_val (snd (snd (relay u w b ev))) = nextID_val b"
proof -
  from relay_only_log [of u w b ev] obtain l where "snd (snd (relay u w b ev)) = b\<lparr>log := l\<rparr>" ..
  then show ?thesis by simp
qed

lemma mux_nextID:
  assumes "mux u w sel b = Some (calls, b')"
  shows "nextID_val b' = nextID_val b"
proof (cases sel)
  case CaseClosed
  with assms show ?thesis by (auto simp: mux_def split: if_splits)
next
  case CasePollError
  with assms show ?thesis by (auto simp: mux_def split: if_splits option.splits)
next
  case CaseEvent
  from assms CaseEvent obtain ev rest where
    q: "eventsMux b = ev # rest" and nd: "\<not> muxDone b"
    by (auto simp: mux_def split: if_splits list.splits)
  obtain cs err b1 where r: "relay u w (b\<lparr>eventsMux := rest\<rparr>) ev = (cs, err, b1)"
    by (cases "relay u w (b\<lparr>eventsMux := rest\<rparr>) ev") auto
  from relay_nextID [of u w "b\<lparr>eventsMux := rest\<rparr>" ev] r
  have "nextID_val b1 = nextID_val b" by simp
  with assms CaseEvent q nd r show ?thesis
    by (auto simp: mux_def split: option.splits)
qed

lemma step_direct_Inr:
  assumes "directResult b x = Some (Inr m)"
  shows "ID m = Itoa (sint (nextID_val b)) \<and> nextID_val (step u b x) = nextID_val b + 1"
proof (cases x)
  case (OpSend w t)
  with assms show ?thesis using finishSend_Inr by (simp add: BridgeSend_def)
next
  case (OpSendAs w sendAs t)
  with assms show ?thesis using finishSend_Inr by (simp add: BridgeSendAs_def)
next
  case (OpReply w replyTo t)
  with assms show ?thesis using finishSend_Inr by (simp add: BridgeReply_def)
next
  case (OpReplyAs w sendAs replyTo t)
  with assms show ?thesis using finishSend_Inr by (simp add: BridgeReplyAs_def)
next
  case (OpTakeID t msgs)
  with assms show ?thesis using takeID_ID takeID_next by auto
qed (use assms in simp_all)

lemma step_direct_Inl:
  assumes "directResult b x = Some (Inl e)"
  shows "nextID_val (step u b x) = nextID_val b"
proof (cases x)
  case (OpSend w t)
  with assms show ?thesis using finishSend_Inl by (simp add: BridgeSend_def)
next
  case (OpSendAs w sendAs t)
  with assms show ?thesis using finishSend_Inl by (simp add: BridgeSendAs_def)
next
  case (OpReply w replyTo t)
  with assms show ?thesis using finishSend_Inl by (simp add: BridgeReply_def)
next
  case (OpReplyAs w sendAs replyTo t)
  with assms show ?thesis using finishSend_Inl by (simp add: BridgeReplyAs_def)
qed (use assms in simp_all)

lemma step_direct_None:
  assumes "directResult b x = None"
  shows "nextID_val (step u b x) = nextID_val b"
proof (cases x)
  case (OpPoll ch r)
  then show ?thesis by (auto simp: poll_def split: sum.splits option.splits if_splits)
next
  case (OpMux w sel)
  show ?thesis
  proof (cases "mux u w sel b")
    case None
    with OpMux show ?thesis by simp
  next
    case (Some a)
    obtain calls b' where "a = (calls, b')" by (cases a)
    with Some OpMux mux_nextID [of u w sel b calls b'] show ?thesis by simp
  qed
next
  case OpRecvCancel
  then show ?thesis by (simp add: recvCancel_def)
next
  case OpReceive
  then show ?thesis by (auto simp: Receive_def split: list.splits)
next
  case OpClose
  then show ?thesis by (simp add: CloseRequest_def)
next
  case (OpLog entry)
  then show ?thesis by (simp add: logMessage_def Let_def)
qed (use assms in simp_all)

lemma issued_counter_ex:
  "\<exists>n. issued u b ops = map (\<lambda>k. Itoa (sint (nextID_val b + of_nat k))) [0..<n]"
proof (induction ops arbitrary: b)
  case Nil
  have "issued u b [] = map (\<lambda>k. Itoa (sint (nextID_val b + of_nat k))) [0..<0]" by simp
  then show ?case by blast
next
  case (Cons x ops)
  let ?b' = "step u b x"
  from Cons.IH [of ?b'] obtain n where
    ih: "issued u ?b' ops = map (\<lambda>k. Itoa (sint (nextID_val ?b' + of_nat k))) [0..<n]" ..
  show ?case
  proof (cases "directResult b x")
    case None
    with step_direct_None [of b x u] ih
    have "issued u b (x # ops) = map (\<lambda>k. Itoa (sint (nextID_val b + of_nat k))) [0..<n]"
      by simp
    then show ?thesis by blast
  next
    case (Some r)
    show ?thesis
    proof (cases r)
      case (Inl e)
      with Some step_direct_Inl [of b x e u] ih
      have "issued u b (x # ops) = map (\<lambda>k. Itoa (sint (nextID_val b + of_nat k))) [0..<n]"
        by simp
      then show ?thesis by blast
    next
      case (Inr m)
      with Some step_direct_Inr [of b x m u]
      have i: "ID m = Itoa (sint (nextID_val b))" and s: "nextID_val ?b' = nextID_val b + 1"
        by simp_all
      have "issued u b (x # ops) = ID m # issued u ?b' ops"
        using Some Inr by simp
      also have "issued u ?b' ops =
          map (\<lambda>k. Itoa (sint (nextID_val b + of_nat k))) (map Suc [0..<n])"
        using ih s by (simp add: add.assoc)
      finally have "issued u b (x # ops) =
          map (\<lambda>k. Itoa (sint (nextID_val b + of_nat k))) (0 # map Suc [0..<n])"
        using i by simp
      then have "issued u b (x # ops) =
          map (\<lambda>k. Itoa (sint (nextID_val b + of_nat k))) [0..<Suc n]"
        by (simp only: upt_conv_Cons [of 0 "Suc n"] map_Suc_upt zero_less_Suc if_True)
      then show ?thesis by blast
    qed
  qed
qed

lemma issued_counter:
  assumes "n = length (issued u b ops)"
  shows "issued u b ops = map (\<lambda>k. Itoa (sint (nextID_val b + of_nat k))) [0..<n]"
proof -
  from issued_counter_ex [of u b ops] obtain n' where
    e: "issued u b ops = map (\<lambda>k. Itoa (sint (nextID_val b + of_nat k))) [0..<n']" ..
  then have "length (issued u b ops) = n'"
    by (metis diff_zero length_map length_upt)
  with assms e show ?thesis by simp
qed

lemma sint_word_of_nat: "k < 2 ^ 63 \<Longrightarrow> sint (word_of_nat k :: 64 word) = int k"
  by (simp add: signed_of_nat signed_take_bit_int_eq_self)

lemma run_takeIDs:
  "run u b (replicate n (OpTakeID t msgs)) = b\<lparr>nextID_val := nextID_val b + of_nat n\<rparr>"
proof (induction n arbitrary: b)
  case 0
  then show ?case by (simp add: run_def)
next
  case (Suc n)
  have "run u b (replicate (Suc n) (OpTakeID t msgs)) =
        run u (step u b (OpTakeID t msgs)) (replicate n (OpTakeID t msgs))"
    by (simp add: run_def)
  also note Suc.IH
  finally show ?case
    by (simp add: takeID_def nextID_def Let_def add.assoc add.commute)
qed

lemma issued_from_New:
  assumes "n = length (issued u (New chans) ops)" and "n \<le> 2 ^ 63"
  shows "issued u (New chans) ops = map (\<lambda>k. Itoa (int k)) [0..<n]"
proof -
  have "issued u (New chans) ops = map (\<lambda>k. Itoa (sint (word_of_nat k :: 64 word))) [0..<n]"
    using issued_counter [OF assms(1)] by (simp add: New_def)
  also have "\<dots> = map (\<lambda>k. Itoa (int k)) [0..<n]"
    using assms(2) by (simp add: sint_word_of_nat)
  finally show ?thesis .
qed

text \<open>
  Claim C7, as amended. The identifiers the send methods of a new Bridge take are the
  decimal numbers 0, 1, 2, ... in the order in which the calls run \<open>nextID\<close>, whatever
  else the Bridge does in between: pairwise distinct and strictly increasing as
  numbers, as long as no more than \<open>2 ^ 63\<close> identifiers have been taken (the counter is
  a 64-bit \<open>int\<close>).
\<close>

theorem issued_ids_increasing:
  "length (issued u (New chans) ops) \<le> 2 ^ 63 \<longrightarrow>
     issued u (New chans) ops
       = map (\<lambda>k. Itoa (int k)) [0..<length (issued u (New chans) ops)]
   \<and> distinct (issued u (New chans) ops)
   \<and> sorted_wrt (<) (map Atoi (issued u (New chans) ops))"
proof
  let ?ids = "issued u (New chans) ops"
  assume "length ?ids \<le> 2 ^ 63"
  then have e: "?ids = map (\<lambda>k. Itoa (int k)) [0..<length ?ids]"
    by (rule issued_from_New [OF refl])
  have "map Atoi (map (\<lambda>k. Itoa (int k)) [0..<length ?ids]) = map int [0..<length ?ids]"
    by (simp add: Atoi_Itoa)
  with e have a: "map Atoi ?ids = map int [0..<length ?ids]" by simp
  have s: "sorted_wrt (<) (map int [0..<length ?ids])"
    by (simp add: sorted_wrt_map)
  then have "distinct (map int [0..<length ?ids])"
    by (simp add: distinct_map)
  with a have "distinct (map Atoi ?ids)" by simp
  then have d: "distinct ?ids" by (simp add: distinct_map)
  from e d s a show "?ids = map (\<lambda>k. Itoa (int k)) [0..<length ?ids]
      \<and> distinct ?ids \<and> sorted_wrt (<) (map Atoi ?ids)"
    by simp
qed

lemma issued_three:
  "issued DisplayName (New [chA, chB])
     [OpSend (okWorld ''1'') ''one'', OpSend (failWorld EOF) ''lost'',
      OpPoll chA (Inr (MessageEv msgHi)), OpMux (okWorld ''2'') CaseEvent,
      OpReply (okWorld ''3'') msgHi ''two'', OpSendAs (okWorld ''4'') alice ''three'']
   = [''0'', ''1'', ''2'']"
  by code_simp

lemma digit_chars:
  "char_of (48::nat) = CHR ''0''" "char_of (49::nat) = CHR ''1''"
  "char_of (50::nat) = CHR ''2''" "char_of (51::nat) = CHR ''3''"
  "char_of (52::nat) = CHR ''4''" "char_of (53::nat) = CHR ''5''"
  "char_of (54::nat) = CHR ''6''" "char_of (55::nat) = CHR ''7''"
  "char_of (56::nat) = CHR ''8''" "char_of (57::nat) = CHR ''9''"
  by code_simp+

lemma Itoa_max: "Itoa (sint (9223372036854775807 :: 64 word)) = ''9223372036854775807''"
  by (simp add: Itoa_def FormatUint.simps digit_chars)

lemma Itoa_min: "Itoa (sint (9223372036854775807 + 1 :: 64 word)) = ''-9223372036854775808''"
  by (simp add: Itoa_def FormatUint.simps digit_chars)

lemma issued_wraps:
  "issued DisplayName ((New [chA])\<lparr>nextID_val := 9223372036854775807\<rparr>)
     [OpTakeID ''two'' msgsTwo, OpTakeID ''one'' msgsOne]
     = [''9223372036854775807'', ''-9223372036854775808'']"
proof -
  let ?b = "(New [chA])\<lparr>nextID_val := 9223372036854775807\<rparr>"
  let ?ops = "[OpTakeID ''two'' msgsTwo, OpTakeID ''one'' msgsOne]"
  have n: "Suc (Suc 0) = length (issued DisplayName ?b ?ops)"
    by simp
  have v: "nextID_val ?b = 9223372036854775807" by simp
  have "issued DisplayName ?b ?ops
          = map (\<lambda>k. Itoa (sint (nextID_val ?b + word_of_nat k))) [0..<Suc (Suc 0)]"
    by (rule issued_counter [OF n])
  also have "\<dots> = [Itoa (sint (9223372036854775807 :: 64 word)),
                    Itoa (sint (9223372036854775807 + 1 :: 64 word))]"
    unfolding v by simp
  finally show ?thesis
    by (simp only: Itoa_max Itoa_min)
qed

theorem issued_ids_increasing_witness:
  "length (issued DisplayName (New [chA, chB])
     [OpSend (okWorld ''1'') ''one'', OpSend (failWorld EOF) ''lost'',
      OpPoll chA (Inr (MessageEv msgHi)), OpMux (okWorld ''2'') CaseEvent,
      OpReply (okWorld ''3'') msgHi ''two'', OpSendAs (okWorld ''4'') alice ''three'']) \<le> 2 ^ 63
   \<and> issued DisplayName (New [chA, chB])
     [OpSend (okWorld ''1'') ''one'', OpSend (failWorld EOF) ''lost'',
      OpPoll chA (Inr (MessageEv msgHi)), OpMux (okWorld ''2'') CaseEvent,
      OpReply (okWorld ''3'') msgHi ''two'', OpSendAs (okWorld ''4'') alice ''three'']
     = map (\<lambda>k. Itoa (int k)) [0..<3]
   \<and> sorted_wrt (<) (map Atoi (issued DisplayName (New [chA, chB])
     [OpSend (okWorld ''1'') ''one'', OpSend (failWorld EOF) ''lost'',
      OpPoll chA (Inr (MessageEv msgHi)), OpMux (okWorld ''2'') CaseEvent,
      OpReply (okWorld ''3'') msgHi ''two'', OpSendAs (okWorld ''4'') alice ''three'']))"
proof -
  let ?ops = "[OpSend (okWorld ''1'') ''one'', OpSend (failWorld EOF) ''lost'',
      OpPoll chA (Inr (MessageEv msgHi)), OpMux (okWorld ''2'') CaseEvent,
      OpReply (okWorld ''3'') msgHi ''two'', OpSendAs (okWorld ''4'') alice ''three'']"
  have l: "length (issued DisplayName (New [chA, chB]) ?ops) = 3"
    by (subst issued_three) simp
  have h: "length (issued DisplayName (New [chA, chB]) ?ops) \<le> 2 ^ 63"
    by (subst l) simp
  from issued_ids_increasing [of DisplayName "[chA, chB]" ?ops] h
  have c: "issued DisplayName (New [chA, chB]) ?ops
             = map (\<lambda>k. Itoa (int k)) [0..<length (issued DisplayName (New [chA, chB]) ?ops)]
           \<and> sorted_wrt (<) (map Atoi (issued DisplayName (New [chA, chB]) ?ops))"
    by blast
  show ?thesis
    by (subst l [symmetric]) (use h c in blast)
qed

lemma run_to_last_id:
  "run DisplayName (New [chA]) (replicate 9223372036854775807 (OpTakeID ''one'' msgsOne))
     = (New [chA])\<lparr>nextID_val := 9223372036854775807\<rparr>"
  unfolding run_takeIDs by (simp add: New_def)

lemma completion_order:
  "ID (fst firstCall) = ''0'' \<and> ID (fst secondCall) = ''1''
   \<and> map (\<lambda>e. ID (msg (last (copies e))))
        (log (run DisplayName (New [chA])
               [OpTakeID ''one'' msgsOne, OpTakeID ''two'' msgsTwo,
                OpLog (fst (snd secondCall)), OpLog (fst (snd firstCall))]))
     = [''1'', ''0'']"
  by code_simp

text \<open>
  Claim C7 as stated fails. Two calls of \<open>Send\<close> run at the same time on a new Bridge;
  the first takes the identifier 0 and the second the identifier 1, each under the
  lock; the second then logs its entry and returns before the first does. In the
  order in which the calls complete the identifiers are 1, 0. And the counter is a
  64-bit \<open>int\<close>: after \<open>2 ^ 63 - 1\<close> identifiers the next two are \<open>2 ^ 63 - 1\<close> and
  \<open>- 2 ^ 63\<close>.
\<close>

theorem ids_not_in_completion_order:
  "ID (fst firstCall) = ''0'' \<and> ID (fst secondCall) = ''1''
   \<and> map (\<lambda>e. ID (msg (last (copies e))))
        (log (run DisplayName (New [chA])
               [OpTakeID ''one'' msgsOne, OpTakeID ''two'' msgsTwo,
                OpLog (fst (snd secondCall)), OpLog (fst (snd firstCall))]))
     = [''1'', ''0'']
   \<and> issued DisplayName
        (run DisplayName (New [chA]) (replicate 9223372036854775807 (OpTakeID ''one'' msgsOne)))
        [OpTakeID ''two'' msgsTwo, OpTakeID ''one'' msgsOne]
     = [''9223372036854775807'', ''-9223372036854775808'']"
  using completion_order issued_wraps by (simp only: run_to_last_id)

section \<open>Relaying messages and replies\<close>

lemma messagesOf_ok:
  "\<forall>ch\<in>set chans. f ch = Inr (r ch) \<Longrightarrow>
   messagesOf (zip chans (map f chans)) = map (\<lambda>ch. \<lparr>to = ch, msg = r ch\<rparr>) chans"
  by (induction chans) simp_all

lemma sendMessage_ok:
  assumes "\<forall>ch\<in>set chans. sendResult w (call ch) = Inr (r ch)"
    and "call = sendCall sendAs (case findMessage of None \<Rightarrow> (\<lambda>ch. None) | Some f \<Rightarrow> f) t"
  shows "sendMessage w chans sendAs findMessage t
           = (map call chans, Inr (map (\<lambda>ch. \<lparr>to = ch, msg = r ch\<rparr>) chans))"
proof -
  from assms(1) have rs: "map (sendResult w) (map call chans) = map (\<lambda>ch. Inr (r ch)) chans"
    by simp
  then have "map errOf (map (sendResult w) (map call chans)) = map (\<lambda>ch. None) chans"
    by simp
  then have "Wait (finish w) (map errOf (map (sendResult w) (map call chans))) = None"
    by (simp add: Wait_None_iff)
  moreover from assms(1)
  have "messagesOf (zip chans (map (sendResult w \<circ> call) chans))
          = map (\<lambda>ch. \<lparr>to = ch, msg = r ch\<rparr>) chans"
    by (intro messagesOf_ok) simp
  ultimately show ?thesis
    unfolding sendMessage_def Let_def assms(2) [symmetric]
    by simp
qed

lemma sendMessage_calls:
  "fst (sendMessage w chans sendAs findMessage t)
     = map (sendCall sendAs (case findMessage of None \<Rightarrow> (\<lambda>ch. None) | Some f \<Rightarrow> f) t) chans"
  by (simp add: sendMessage_def Let_def)

lemma sendMessage_failed:
  assumes "ch \<in> set chans"
    and "sendResult w (call ch) = Inl err0"
    and "call = sendCall sendAs (case findMessage of None \<Rightarrow> (\<lambda>ch. None) | Some f \<Rightarrow> f) t"
  shows "\<exists>err. sendMessage w chans sendAs findMessage t = (map call chans, Inl err)
              \<and> (\<exists>c\<in>set chans. sendResult w (call c) = Inl err)"
proof -
  let ?rs = "map errOf (map (sendResult w) (map call chans))"
  from assms(1,2) have "Some err0 \<in> set ?rs" by force
  then have "\<exists>r\<in>set ?rs. r \<noteq> None"
    by (intro bexI [of _ "Some err0"]) simp_all
  then have "Wait (finish w) ?rs \<noteq> None"
    unfolding Wait_None_iff by blast
  then obtain err where e: "Wait (finish w) ?rs = Some err" by auto
  then have "Some err \<in> set ?rs" by (rule Wait_Some)
  then obtain c where c: "c \<in> set chans" "errOf (sendResult w (call c)) = Some err"
    by auto
  then have "sendResult w (call c) = Inl err"
    by (cases "sendResult w (call c)") auto
  with c(1) e show ?thesis
    unfolding sendMessage_def Let_def assms(3) [symmetric] by auto
qed

lemma allChannelsExcept_distinct:
  assumes "distinct (channels b)" and "A \<in> set (channels b)"
  shows "distinct (allChannelsExcept b A)
       \<and> set (allChannelsExcept b A) = set (channels b) - {A}
       \<and> length (allChannelsExcept b A) = length (channels b) - 1"
proof -
  have s: "set (allChannelsExcept b A) = set (channels b) - {A}"
    by (auto simp: allChannelsExcept_def)
  have d: "distinct (allChannelsExcept b A)"
    using assms(1) by (simp add: allChannelsExcept_def)
  have "allChannelsExcept b A = removeAll A (channels b)"
    by (simp add: allChannelsExcept_def removeAll_filter_not_eq) (metis)
  then have "length (allChannelsExcept b A) = length (channels b) - 1"
    using assms by (simp add: distinct_remove1_removeAll [symmetric] length_remove1)
  with s d show ?thesis by simp
qed

lemma relay_message_ok:
  assumes "\<forall>ch\<in>set (allChannelsExcept b A). sendResult w (SendAs ch (From m) (Text m)) = Inr (r ch)"
  shows "relay u w b \<lparr>evOrigin = A, what = MessageEv m\<rparr>
           = (map (\<lambda>ch. SendAs ch (From m) (Text m)) (allChannelsExcept b A), None,
              logMessage b
                \<lparr>origin = A,
                 copies = map (\<lambda>ch. \<lparr>to = ch, msg = r ch\<rparr>) (allChannelsExcept b A)
                          @ [\<lparr>to = A, msg = m\<rparr>]\<rparr>)"
proof -
  have c: "(\<lambda>ch. SendAs ch (From m) (Text m))
             = sendCall (Some (From m)) (case None of None \<Rightarrow> (\<lambda>ch. None) | Some f \<Rightarrow> f) (Text m)"
    by (simp add: sendCall_def fun_eq_iff)
  from sendMessage_ok [OF assms c]
  have "sendMessage w (allChannelsExcept b A) (Some (From m)) None (Text m)
          = (map (\<lambda>ch. SendAs ch (From m) (Text m)) (allChannelsExcept b A),
             Inr (map (\<lambda>ch. \<lparr>to = ch, msg = r ch\<rparr>) (allChannelsExcept b A)))" .
  then show ?thesis
    by (simp add: relay_def Let_def)
qed

lemma relay_message_failed:
  assumes "ch \<in> set (allChannelsExcept b A)"
    and "sendResult w (SendAs ch (From m) (Text m)) = Inl err0"
  shows "\<exists>err. relay u w b \<lparr>evOrigin = A, what = MessageEv m\<rparr>
                 = (map (\<lambda>c. SendAs c (From m) (Text m)) (allChannelsExcept b A), Some err, b)
              \<and> (\<exists>c\<in>set (allChannelsExcept b A).
                    sendResult w (SendAs c (From m) (Text m)) = Inl err)"
proof -
  have c: "(\<lambda>ch. SendAs ch (From m) (Text m))
             = sendCall (Some (From m)) (case None of None \<Rightarrow> (\<lambda>ch. None) | Some f \<Rightarrow> f) (Text m)"
    by (simp add: sendCall_def fun_eq_iff)
  from sendMessage_failed [OF assms(1) assms(2) c]
  obtain err where
    s: "sendMessage w (allChannelsExcept b A) (Some (From m)) None (Text m)
          = (map (\<lambda>c. SendAs c (From m) (Text m)) (allChannelsExcept b A), Inl err)"
    and e: "\<exists>c\<in>set (allChannelsExcept b A). sendResult w (SendAs c (From m) (Text m)) = Inl err"
    by blast
  from s have "relay u w b \<lparr>evOrigin = A, what = MessageEv m\<rparr>
                 = (map (\<lambda>c. SendAs c (From m) (Text m)) (allChannelsExcept b A), Some err, b)"
    by (simp add: relay_def Let_def)
  with e show ?thesis by blast
qed

lemma relay_message_calls:
  "fst (relay u w b \<lparr>evOrigin = A, what = MessageEv m\<rparr>)
     = map (\<lambda>ch. SendAs ch (From m) (Text m)) (allChannelsExcept b A)"
proof -
  have c: "sendCall (Some (From m)) (case None of None \<Rightarrow> (\<lambda>ch. None) | Some f \<Rightarrow> f) (Text m)
             = (\<lambda>ch. SendAs ch (From m) (Text m))"
    by (simp add: sendCall_def fun_eq_iff)
  obtain calls res where
    sm: "sendMessage w (allChannelsExcept b A) (Some (From m)) None (Text m) = (calls, res)"
    by (cases "sendMessage w (allChannelsExcept b A) (Some (From m)) None (Text m)")
  from sendMessage_calls [of w "allChannelsExcept b A" "Some (From m)" None "Text m"] sm
  have "calls = map (\<lambda>ch. SendAs ch (From m) (Text m)) (allChannelsExcept b A)"
    unfolding c by simp
  with sm show ?thesis
    by (cases res) (simp_all add: relay_def Let_def)
qed

lemma mux_event_calls:
  assumes "\<not> muxDone b" and "eventsMux b = ev # rest"
  shows "\<exists>b'. mux u w CaseEvent b = Some (fst (relay u w (b\<lparr>eventsMux := rest\<rparr>) ev), b')"
proof -
  obtain calls err b1 where "relay u w (b\<lparr>eventsMux := rest\<rparr>) ev = (calls, err, b1)"
    by (cases "relay u w (b\<lparr>eventsMux := rest\<rparr>) ev") auto
  with assms show ?thesis
    by (cases err) (simp_all add: mux_def)
qed

text \<open>
  Operations other than a \<open>Receive\<close> and the \<open>recv\<close> goroutine giving up leave \<open>recvOut\<close>
  open and only add to the events published.
\<close>

lemma step_recvIn:
  assumes "x \<noteq> OpReceive" and "x \<noteq> OpRecvCancel"
  shows "recvOutClosed (step u b x) = recvOutClosed b \<and> (\<exists>zs. recvIn (step u b x) = recvIn b @ zs)"
proof (cases x)
  case (OpPoll ch r)
  then show ?thesis
    by (auto simp: poll_def split: sum.splits option.splits if_splits)
next
  case (OpMux w sel)
  show ?thesis
  proof (cases "mux u w sel b")
    case None
    with OpMux show ?thesis by simp
  next
    case (Some a)
    obtain calls b' where a: "a = (calls, b')" by (cases a)
    have "recvOutClosed b' = recvOutClosed b \<and> (\<exists>zs. recvIn b' = recvIn b @ zs)"
    proof (cases sel)
      case CaseClosed
      with Some a show ?thesis by (auto simp: mux_def split: if_splits)
    next
      case CasePollError
      with Some a show ?thesis by (auto simp: mux_def split: if_splits option.splits)
    next
      case CaseEvent
      from Some a CaseEvent obtain ev rest where
        q: "eventsMux b = ev # rest" and nd: "\<not> muxDone b"
        by (auto simp: mux_def split: if_splits list.splits)
      obtain cs err b1 where r: "relay u w (b\<lparr>eventsMux := rest\<rparr>) ev = (cs, err, b1)"
        by (cases "relay u w (b\<lparr>eventsMux := rest\<rparr>) ev") auto
      from relay_only_log [of u w "b\<lparr>eventsMux := rest\<rparr>" ev] r
      obtain l where "b1 = b\<lparr>eventsMux := rest, log := l\<rparr>" by auto
      with Some a CaseEvent q nd r show ?thesis
        by (cases err) (auto simp: mux_def)
    qed
    with OpMux Some a show ?thesis by simp
  qed
next
  case OpRecvCancel
  with assms show ?thesis by simp
next
  case OpReceive
  with assms show ?thesis by simp
next
  case OpClose
  then show ?thesis by (simp add: CloseRequest_def)
next
  case (OpSend w t)
  from finishSend_frame [of b t "sendMessage w (channels b) None None t"] OpSend
  show ?thesis by (auto simp: BridgeSend_def)
next
  case (OpSendAs w sendAs t)
  from finishSend_frame [of b t "sendMessage w (channels b) (Some sendAs) None t"] OpSendAs
  show ?thesis by (auto simp: BridgeSendAs_def)
next
  case (OpReply w replyTo t)
  from finishSend_frame
         [of b t "sendMessage w (channels b) None (Some (makeFindMessage b BridgeChan (ID replyTo))) t"]
       OpReply
  show ?thesis by (auto simp: BridgeReply_def)
next
  case (OpReplyAs w sendAs replyTo t)
  from finishSend_frame
         [of b t "sendMessage w (channels b) (Some sendAs)
                    (Some (makeFindMessage b BridgeChan (ID replyTo))) t"]
       OpReplyAs
  show ?thesis by (auto simp: BridgeReplyAs_def)
next
  case (OpTakeID t msgs)
  then show ?thesis by (simp add: takeID_def nextID_def Let_def)
next
  case (OpLog entry)
  then show ?thesis by (simp add: logMessage_def Let_def)
qed

lemma receive_in_order:
  assumes "recvIn b = xs @ ev # ys" and "\<not> recvOutClosed b"
    and "OpRecvCancel \<notin> set ops" and "count_list ops OpReceive = length xs"
  shows "\<exists>b'. Receive (run u b ops) = Some (Inr ev, b')"
  using assms
proof (induction ops arbitrary: b xs ys)
  case Nil
  then show ?case by (simp add: run_def Receive_def)
next
  case (Cons x ops)
  have r: "run u b (x # ops) = run u (step u b x) ops" by (simp add: run_def)
  show ?case
  proof (cases "x = OpReceive")
    case True
    with Cons.prems(4) obtain x' xs' where xs: "xs = x' # xs'" by (cases xs) auto
    with True Cons.prems have
      "recvIn (step u b x) = xs' @ ev # ys" "\<not> recvOutClosed (step u b x)"
      "OpRecvCancel \<notin> set ops" "count_list ops OpReceive = length xs'"
      by (auto simp: Receive_def)
    from Cons.IH [OF this] r show ?thesis by simp
  next
    case False
    with Cons.prems(3) have "x \<noteq> OpRecvCancel" by auto
    from step_recvIn [OF False this, of u b] obtain zs where
      "recvOutClosed (step u b x) = recvOutClosed b" "recvIn (step u b x) = recvIn b @ zs"
      by blast
    with False Cons.prems have
      "recvIn (step u b x) = xs @ ev # (ys @ zs)" "\<not> recvOutClosed (step u b x)"
      "OpRecvCancel \<notin> set ops" "count_list ops OpReceive = length xs"
      by auto
    from Cons.IH [OF this] r show ?thesis by simp
  qed
qed

text \<open>
  Claim C1, as amended. A running Bridge takes a Message event from the origin \<open>A\<close> off
  its queue. The relay makes exactly the calls \<open>SendAs\<close> with the sender and the text of
  the message, one on each bridged channel other than \<open>A\<close> (with \<open>N\<close> distinct channels,
  \<open>A\<close> among them, on \<open>N - 1\<close> channels), whether they succeed or not. When every call
  succeeds, the event is published and nothing but the queue, the log and the events
  published changes; when the log held fewer than \<open>maxHistory\<close> entries, it now ends
  with one new entry, with origin \<open>A\<close> and as copies the message each target returned
  and at the end the message itself as the copy on \<open>A\<close>; and in every run that follows
  in which the \<open>recv\<close> goroutine does not give up, the \<open>Receive\<close> after those that take
  the events published before returns the event. When a call fails, the mux goroutine
  returns with the error of a call that failed: nothing is appended to the log and
  the event is not published.
\<close>

theorem message_broadcast:
  assumes "\<not> muxDone b" and "\<not> recvOutClosed b"
    and "eventsMux b = \<lparr>evOrigin = A, what = MessageEv m\<rparr> # rest"
  shows "\<exists>b'. mux u w CaseEvent b
                = Some (map (\<lambda>ch. SendAs ch (From m) (Text m)) (allChannelsExcept b A), b')
          \<and> (distinct (channels b) \<and> A \<in> set (channels b) \<longrightarrow>
                distinct (allChannelsExcept b A)
              \<and> set (allChannelsExcept b A) = set (channels b) - {A}
              \<and> length (allChannelsExcept b A) = length (channels b) - 1)
          \<and> ((\<forall>ch\<in>set (allChannelsExcept b A).
                  sendResult w (SendAs ch (From m) (Text m)) = Inr (r ch)) \<longrightarrow>
                (\<exists>l. b' = b\<lparr>eventsMux := rest, log := l, recvIn := recvIn b @ [MessageEv m]\<rparr>
                    \<and> (length (log b) < maxHistory \<longrightarrow>
                          l = log b @ [\<lparr>origin = A,
                                         copies = map (\<lambda>ch. \<lparr>to = ch, msg = r ch\<rparr>)
                                                    (allChannelsExcept b A)
                                                  @ [\<lparr>to = A, msg = m\<rparr>]\<rparr>]))
              \<and> (\<forall>ops. OpRecvCancel \<notin> set ops
                        \<and> count_list ops OpReceive = length (recvIn b) \<longrightarrow>
                      (\<exists>b''. Receive (run u b' ops) = Some (Inr (MessageEv m), b''))))
          \<and> (ch \<in> set (allChannelsExcept b A)
                \<and> sendResult w (SendAs ch (From m) (Text m)) = Inl err0 \<longrightarrow>
                (\<exists>err. (\<exists>c\<in>set (allChannelsExcept b A).
                            sendResult w (SendAs c (From m) (Text m)) = Inl err)
                      \<and> b' = b\<lparr>eventsMux := rest, closeError := Some err, muxDone := True\<rparr>))"
proof -
  let ?ev = "\<lparr>evOrigin = A, what = MessageEv m\<rparr>"
  let ?b0 = "b\<lparr>eventsMux := rest\<rparr>"
  let ?calls = "map (\<lambda>ch. SendAs ch (From m) (Text m)) (allChannelsExcept b A)"
  let ?e = "\<lparr>origin = A,
             copies = map (\<lambda>ch. \<lparr>to = ch, msg = r ch\<rparr>) (allChannelsExcept b A)
                      @ [\<lparr>to = A, msg = m\<rparr>]\<rparr>"
  have t: "allChannelsExcept ?b0 A = allChannelsExcept b A"
    by (simp add: allChannelsExcept_def)
  from mux_event_calls [OF assms(1,3), of u w] relay_message_calls [of u w ?b0 A m] t
  obtain b' where m: "mux u w CaseEvent b = Some (?calls, b')" by auto
  have ok: "(\<forall>ch\<in>set (allChannelsExcept b A).
                  sendResult w (SendAs ch (From m) (Text m)) = Inr (r ch)) \<longrightarrow>
                (\<exists>l. b' = b\<lparr>eventsMux := rest, log := l, recvIn := recvIn b @ [MessageEv m]\<rparr>
                    \<and> (length (log b) < maxHistory \<longrightarrow> l = log b @ [?e]))
              \<and> (\<forall>ops. OpRecvCancel \<notin> set ops
                        \<and> count_list ops OpReceive = length (recvIn b) \<longrightarrow>
                      (\<exists>b''. Receive (run u b' ops) = Some (Inr (MessageEv m), b'')))"
  proof
    assume a: "\<forall>ch\<in>set (allChannelsExcept b A).
                  sendResult w (SendAs ch (From m) (Text m)) = Inr (r ch)"
    from relay_message_ok [of ?b0 A w m r u] a t
    have "relay u w ?b0 ?ev = (?calls, None, logMessage ?b0 ?e)" by simp
    with assms(1,3) m have b': "b' = (logMessage ?b0 ?e)\<lparr>recvIn := recvIn b @ [MessageEv m]\<rparr>"
      by (auto simp: mux_def logMessage_def Let_def)
    then have eq: "b' = b\<lparr>eventsMux := rest, log := log (logMessage ?b0 ?e),
                           recvIn := recvIn b @ [MessageEv m]\<rparr>"
      by (simp add: logMessage_def Let_def)
    have "length (log b) < maxHistory \<longrightarrow> log (logMessage ?b0 ?e) = log b @ [?e]"
      by (simp add: logMessage_log)
    with eq have 1: "\<exists>l. b' = b\<lparr>eventsMux := rest, log := l, recvIn := recvIn b @ [MessageEv m]\<rparr>
                    \<and> (length (log b) < maxHistory \<longrightarrow> l = log b @ [?e])"
      by blast
    have 2: "\<forall>ops. OpRecvCancel \<notin> set ops
                        \<and> count_list ops OpReceive = length (recvIn b) \<longrightarrow>
                      (\<exists>b''. Receive (run u b' ops) = Some (Inr (MessageEv m), b''))"
    proof (intro allI impI)
      fix ops
      assume o: "OpRecvCancel \<notin> set ops \<and> count_list ops OpReceive = length (recvIn b)"
      have "recvIn b' = recvIn b @ MessageEv m # []" "\<not> recvOutClosed b'"
        using eq assms(2) by simp_all
      from receive_in_order [OF this, of ops u] o
      show "\<exists>b''. Receive (run u b' ops) = Some (Inr (MessageEv m), b'')" by simp
    qed
    from 1 2 show "(\<exists>l. b' = b\<lparr>eventsMux := rest, log := l, recvIn := recvIn b @ [MessageEv m]\<rparr>
                    \<and> (length (log b) < maxHistory \<longrightarrow> l = log b @ [?e]))
              \<and> (\<forall>ops. OpRecvCancel \<notin> set ops
                        \<and> count_list ops OpReceive = length (recvIn b) \<longrightarrow>
                      (\<exists>b''. Receive (run u b' ops) = Some (Inr (MessageEv m), b'')))"
      by blast
  qed
  have bad: "ch \<in> set (allChannelsExcept b A)
                \<and> sendResult w (SendAs ch (From m) (Text m)) = Inl err0 \<longrightarrow>
                (\<exists>err. (\<exists>c\<in>set (allChannelsExcept b A).
                            sendResult w (SendAs c (From m) (Text m)) = Inl err)
                      \<and> b' = b\<lparr>eventsMux := rest, closeError := Some err, muxDone := True\<rparr>)"
  proof
    assume a: "ch \<in> set (allChannelsExcept b A)
                \<and> sendResult w (SendAs ch (From m) (Text m)) = Inl err0"
    from relay_message_failed [of ch ?b0 A w m err0 u] a t
    obtain err where
      r: "relay u w ?b0 ?ev = (?calls, Some err, ?b0)"
      and e: "\<exists>c\<in>set (allChannelsExcept b A). sendResult w (SendAs c (From m) (Text m)) = Inl err"
      by auto
    from r assms(1,3) m
    have "b' = b\<lparr>eventsMux := rest, closeError := Some err, muxDone := True\<rparr>"
      by (simp add: mux_def)
    with e show "\<exists>err. (\<exists>c\<in>set (allChannelsExcept b A).
                            sendResult w (SendAs c (From m) (Text m)) = Inl err)
                      \<and> b' = b\<lparr>eventsMux := rest, closeError := Some err, muxDone := True\<rparr>"
      by blast
  qed
  from m ok bad allChannelsExcept_distinct [of b A] show ?thesis by blast
qed

lemma okWorld_hi:
  "\<forall>ch\<in>set (allChannelsExcept ((New [chA, chB, chC])\<lparr>eventsMux := [evHi]\<rparr>) chA).
     sendResult (okWorld ''1'') (SendAs ch (From msgHi) (Text msgHi))
       = Inr \<lparr>ID = (if ch = chB then ''hi'' else Name ch @ ''1''), From = bot, Text = ''hi''\<rparr>"
  by (simp add: okWorld_def msgHi_def)

theorem message_broadcast_witness:
  "mux DisplayName (okWorld ''1'') CaseEvent ((New [chA, chB, chC])\<lparr>eventsMux := [evHi]\<rparr>)
     = Some ([SendAs chB alice ''hi'', SendAs chC alice ''hi''],
             (New [chA, chB, chC])
               \<lparr>log := [\<lparr>origin = chA,
                         copies = [\<lparr>to = chB, msg = \<lparr>ID = ''hi'', From = bot, Text = ''hi''\<rparr>\<rparr>,
                                   \<lparr>to = chC, msg = \<lparr>ID = ''Velour1'', From = bot, Text = ''hi''\<rparr>\<rparr>,
                                   \<lparr>to = chA, msg = msgHi\<rparr>]\<rparr>],
                 recvIn := [MessageEv msgHi]\<rparr>)
   \<and> length (allChannelsExcept ((New [chA, chB, chC])\<lparr>eventsMux := [evHi]\<rparr>) chA) = 2
   \<and> mux DisplayName (failWorld (ErrorsNew ''rate limited'')) CaseEvent
       ((New [chA, chB, chC])\<lparr>eventsMux := [evHi]\<rparr>)
     = Some ([SendAs chB alice ''hi'', SendAs chC alice ''hi''],
             (New [chA, chB, chC])\<lparr>closeError := Some (ErrorsNew ''rate limited''),
                                    muxDone := True\<rparr>)"
proof -
  let ?b = "(New [chA, chB, chC])\<lparr>eventsMux := [evHi]\<rparr>"
  let ?f = "failWorld (ErrorsNew ''rate limited'')"
  have h1: "\<not> muxDone ?b" and h2: "\<not> recvOutClosed ?b"
    and h3: "eventsMux ?b = \<lparr>evOrigin = chA, what = MessageEv msgHi\<rparr> # []"
    and h5: "length (log ?b) < maxHistory"
    and h6: "distinct (channels ?b) \<and> chA \<in> set (channels ?b)"
    by (simp_all add: New_def evHi_def maxHistory_def chA_def chB_def chC_def)
  have t: "allChannelsExcept ?b chA = [chB, chC]"
    by (simp add: allChannelsExcept_def New_def chA_def chB_def chC_def)
  have f: "\<And>c. sendResult ?f c = Inl (ErrorsNew ''rate limited'')"
    by (simp add: failWorld_def)
  then have h7: "chB \<in> set (allChannelsExcept ?b chA)
       \<and> sendResult ?f (SendAs chB (From msgHi) (Text msgHi)) = Inl (ErrorsNew ''rate limited'')"
    by (simp add: t)
  from message_broadcast
         [OF h1 h2 h3, where u = DisplayName and w = "okWorld ''1''" and ch = chB
            and ?err0.0 = "ErrorsNew ''x''"
            and r = "\<lambda>ch. \<lparr>ID = (if ch = chB then ''hi'' else Name ch @ ''1''), From = bot,
                            Text = ''hi''\<rparr>"]
       okWorld_hi h5 h6
  have 1: "mux DisplayName (okWorld ''1'') CaseEvent ?b
     = Some ([SendAs chB alice ''hi'', SendAs chC alice ''hi''],
             (New [chA, chB, chC])
               \<lparr>log := [\<lparr>origin = chA,
                         copies = [\<lparr>to = chB, msg = \<lparr>ID = ''hi'', From = bot, Text = ''hi''\<rparr>\<rparr>,
                                   \<lparr>to = chC, msg = \<lparr>ID = ''Velour1'', From = bot, Text = ''hi''\<rparr>\<rparr>,
                                   \<lparr>to = chA, msg = msgHi\<rparr>]\<rparr>],
                 recvIn := [MessageEv msgHi]\<rparr>)
     \<and> length (allChannelsExcept ?b chA) = 2"
    unfolding t
    by (auto simp: New_def msgHi_def chB_def chC_def)
  from message_broadcast
         [OF h1 h2 h3, where u = DisplayName and w = ?f and ch = chB
            and ?err0.0 = "ErrorsNew ''rate limited''" and r = "\<lambda>ch. msgHi"] h7
  have 2: "mux DisplayName ?f CaseEvent ?b
     = Some ([SendAs chB alice ''hi'', SendAs chC alice ''hi''],
             (New [chA, chB, chC])\<lparr>closeError := Some (ErrorsNew ''rate limited''),
                                    muxDone := True\<rparr>)"
    unfolding t
    by (auto simp: f New_def msgHi_def)
  from 1 2 show ?thesis by blast
qed

text \<open>
  Claim C1 as stated fails. When the call on a target fails (here \<open>SendAs\<close> on \<open>chC\<close>),
  the relay appends no entry and the event is not published: the mux goroutine
  returns, with the log and \<open>recvIn\<close> empty as before. And when the log holds
  \<open>maxHistory\<close> entries already, the relay makes its calls and publishes the event, but
  the log afterwards is the log before: the entry appended is the one dropped.
\<close>

theorem message_broadcast_counterexample:
  "mux DisplayName (failWorld (ErrorsNew ''rate limited'')) CaseEvent
       ((New [chA, chC])\<lparr>eventsMux := [evHi]\<rparr>)
     = Some ([SendAs chC alice ''hi''],
             (New [chA, chC])\<lparr>closeError := Some (ErrorsNew ''rate limited''), muxDone := True\<rparr>)
   \<and> log ((New [chA, chC])\<lparr>closeError := Some (ErrorsNew ''rate limited''), muxDone := True\<rparr>) = []
   \<and> recvIn ((New [chA, chC])\<lparr>closeError := Some (ErrorsNew ''rate limited''), muxDone := True\<rparr>) = []
   \<and> mux DisplayName (okWorld ''1'') CaseEvent (fullBridge\<lparr>eventsMux := [evHi]\<rparr>)
     = Some ([SendAs chB alice ''hi''], fullBridge\<lparr>recvIn := [MessageEv msgHi]\<rparr>)"
  by (simp add: mux_def relay_def New_def fullBridge_def evHi_def msgHi_def
        allChannelsExcept_def sendMessage_def sendCall_def failWorld_def okWorld_def
        Wait_def logMessage_def maxHistory_def Let_def chA_def chB_def chC_def)

lemma mux_after_done: "muxDone b \<Longrightarrow> mux u w sel (run u b ops) = None"
  using run_muxDone [of b u ops] by (simp add: mux_def)

lemma firstError_append_None:
  "\<forall>r\<in>set xs. r = None \<Longrightarrow> firstError (xs @ ys) = firstError ys"
  by (induction xs) auto

text \<open>
  \<open>Wait\<close> returns the error of the goroutine that \<open>finish\<close> lists first among those that
  failed; when none of those listed failed, the error of the first in launch order.
\<close>

lemma Wait_first:
  assumes "fin = pre @ i # post" and "i < length rs" and "rs ! i = Some e"
    and "\<forall>j\<in>set pre. j < length rs \<longrightarrow> rs ! j = None"
  shows "Wait fin rs = Some e"
proof -
  have "\<forall>r\<in>set (map (\<lambda>i. rs ! i) (filter (\<lambda>i. i < length rs) pre)). r = None"
    using assms(4) by auto
  then have "firstError (map (\<lambda>i. rs ! i) (filter (\<lambda>i. i < length rs) pre)
               @ (rs ! i # map (\<lambda>i. rs ! i) (filter (\<lambda>i. i < length rs) post) @ rs))
             = firstError (rs ! i # map (\<lambda>i. rs ! i) (filter (\<lambda>i. i < length rs) post) @ rs)"
    by (rule firstError_append_None)
  with assms(1,2,3) show ?thesis
    by (simp add: Wait_def)
qed

lemma Wait_launch_order:
  assumes "\<forall>j\<in>set fin. j < length rs \<longrightarrow> rs ! j = None"
    and "i < length rs" and "rs ! i = Some e" and "\<forall>j<i. rs ! j = None"
  shows "Wait fin rs = Some e"
proof -
  have "\<forall>r\<in>set (map (\<lambda>i. rs ! i) (filter (\<lambda>i. i < length rs) fin)). r = None"
    using assms(1) by auto
  then have w: "Wait fin rs = firstError rs"
    unfolding Wait_def by (rule firstError_append_None)
  from assms(2) have rs: "rs = take i rs @ rs ! i # drop (Suc i) rs"
    by (simp add: id_take_nth_drop)
  have "\<forall>r\<in>set (take i rs). r = None"
    using assms(2,4) by (auto simp: in_set_conv_nth)
  then have "firstError (take i rs @ rs ! i # drop (Suc i) rs)
               = firstError (rs ! i # drop (Suc i) rs)"
    by (rule firstError_append_None)
  with rs assms(3) have "firstError rs = Some e" by simp
  with w show ?thesis by simp
qed

lemma sendMessage_error:
  "snd (sendMessage w chans sendAs findMessage t) = Inl err \<longleftrightarrow>
   Wait (finish w)
     (map (\<lambda>ch. errOf (sendResult w
            (sendCall sendAs (case findMessage of None \<Rightarrow> (\<lambda>ch. None) | Some f \<Rightarrow> f) t ch)))
        chans) = Some err"
  by (auto simp: sendMessage_def Let_def comp_def split: option.splits)

lemma errOf_not_isl: "\<not> isl x \<Longrightarrow> errOf x = None"
  by (cases x) simp_all

lemma relay_message_error:
  assumes "fst (snd (relay u w b \<lparr>evOrigin = A, what = MessageEv m\<rparr>)) = Some err"
  shows "Wait (finish w)
           (map (\<lambda>ch. errOf (sendResult w (SendAs ch (From m) (Text m)))) (allChannelsExcept b A))
         = Some err"
proof -
  have c: "sendCall (Some (From m)) (case None of None \<Rightarrow> (\<lambda>ch. None) | Some f \<Rightarrow> f) (Text m)
             = (\<lambda>ch. SendAs ch (From m) (Text m))"
    by (simp add: sendCall_def fun_eq_iff)
  obtain calls res where
    sm: "sendMessage w (allChannelsExcept b A) (Some (From m)) None (Text m) = (calls, res)"
    by (cases "sendMessage w (allChannelsExcept b A) (Some (From m)) None (Text m)")
  with assms have "res = Inl err"
    by (cases res) (simp_all add: relay_def Let_def)
  with sm have "snd (sendMessage w (allChannelsExcept b A) (Some (From m)) None (Text m)) = Inl err"
    by simp
  then show ?thesis
    unfolding sendMessage_error c .
qed

text \<open>
  Claim C5, as amended. A running Bridge takes a Message event off its queue and the
  call on a target \<open>ch\<close> fails. Then the relay returns an error, which is the error of
  a target whose call failed: that of \<open>ch\<close> when no other target fails, and with
  several failures that of the failed call that finished first (the first position
  in \<open>finish\<close> whose call failed or, when none of the calls listed there failed, the
  first failed call in launch order). The mux goroutine puts that error into
  \<open>closeError\<close> and returns, without logging or publishing the event; \<open>Close\<close> returns
  that error, except that it returns a new error "unexpected EOF" in place of
  \<open>io.EOF\<close>; and the mux goroutine never runs again, whatever happens afterwards: no
  queued event is relayed.
\<close>

theorem failed_send_is_terminal:
  assumes "\<not> muxDone b"
    and "eventsMux b = \<lparr>evOrigin = A, what = MessageEv m\<rparr> # rest"
    and "ch \<in> set (allChannelsExcept b A)"
    and "sendResult w (SendAs ch (From m) (Text m)) = Inl err0"
  shows "\<exists>err b'.
           (\<exists>c\<in>set (allChannelsExcept b A). sendResult w (SendAs c (From m) (Text m)) = Inl err)
         \<and> ((\<forall>c\<in>set (allChannelsExcept b A). c \<noteq> ch \<longrightarrow>
                 \<not> isl (sendResult w (SendAs c (From m) (Text m)))) \<longrightarrow> err = err0)
         \<and> (\<forall>i pre post e.
               finish w = pre @ i # post \<and> i < length (allChannelsExcept b A)
               \<and> sendResult w (SendAs (allChannelsExcept b A ! i) (From m) (Text m)) = Inl e
               \<and> (\<forall>j\<in>set pre. j < length (allChannelsExcept b A) \<longrightarrow>
                     \<not> isl (sendResult w (SendAs (allChannelsExcept b A ! j) (From m) (Text m))))
               \<longrightarrow> err = e)
         \<and> (\<forall>i e.
               (\<forall>j\<in>set (finish w). j < length (allChannelsExcept b A) \<longrightarrow>
                     \<not> isl (sendResult w (SendAs (allChannelsExcept b A ! j) (From m) (Text m))))
               \<and> i < length (allChannelsExcept b A)
               \<and> sendResult w (SendAs (allChannelsExcept b A ! i) (From m) (Text m)) = Inl e
               \<and> (\<forall>j<i. \<not> isl (sendResult w (SendAs (allChannelsExcept b A ! j) (From m) (Text m))))
               \<longrightarrow> err = e)
         \<and> fst (snd (relay u w (b\<lparr>eventsMux := rest\<rparr>) \<lparr>evOrigin = A, what = MessageEv m\<rparr>))
             = Some err
         \<and> mux u w CaseEvent b
             = Some (map (\<lambda>c. SendAs c (From m) (Text m)) (allChannelsExcept b A), b')
         \<and> b' = b\<lparr>eventsMux := rest, closeError := Some err, muxDone := True\<rparr>
         \<and> CloseReturn b' = Some (Some (if err = EOF then ErrorsNew ''unexpected EOF'' else err))
         \<and> (\<forall>ops w' sel. mux u w' sel (run u b' ops) = None)"
proof -
  let ?b0 = "b\<lparr>eventsMux := rest\<rparr>"
  let ?T = "allChannelsExcept b A"
  let ?res = "\<lambda>c. sendResult w (SendAs c (From m) (Text m))"
  let ?rs = "map (\<lambda>c. errOf (?res c)) ?T"
  have t: "allChannelsExcept ?b0 A = ?T"
    by (simp add: allChannelsExcept_def)
  from relay_message_failed [of ch ?b0 A w m err0 u] assms(3,4) t
  obtain err where
    r: "relay u w ?b0 \<lparr>evOrigin = A, what = MessageEv m\<rparr>
          = (map (\<lambda>c. SendAs c (From m) (Text m)) ?T, Some err, ?b0)"
    and e: "\<exists>c\<in>set ?T. ?res c = Inl err"
    by auto
  let ?b' = "b\<lparr>eventsMux := rest, closeError := Some err, muxDone := True\<rparr>"
  from r have f: "fst (snd (relay u w ?b0 \<lparr>evOrigin = A, what = MessageEv m\<rparr>)) = Some err"
    by simp
  from relay_message_error [OF f] t have wt: "Wait (finish w) ?rs = Some err" by simp
  have only: "(\<forall>c\<in>set ?T. c \<noteq> ch \<longrightarrow> \<not> isl (?res c)) \<longrightarrow> err = err0"
  proof
    assume o: "\<forall>c\<in>set ?T. c \<noteq> ch \<longrightarrow> \<not> isl (?res c)"
    from e obtain c where c: "c \<in> set ?T" "?res c = Inl err" by blast
    with o have "c = ch" by auto
    with c(2) assms(4) show "err = err0" by simp
  qed
  have first: "\<forall>i pre post e.
               finish w = pre @ i # post \<and> i < length ?T \<and> ?res (?T ! i) = Inl e
               \<and> (\<forall>j\<in>set pre. j < length ?T \<longrightarrow> \<not> isl (?res (?T ! j)))
               \<longrightarrow> err = e"
  proof (intro allI impI)
    fix i pre post e
    assume a: "finish w = pre @ i # post \<and> i < length ?T \<and> ?res (?T ! i) = Inl e
               \<and> (\<forall>j\<in>set pre. j < length ?T \<longrightarrow> \<not> isl (?res (?T ! j)))"
    then have "Wait (finish w) ?rs = Some e"
      by (intro Wait_first [of _ pre i post]) (auto simp: errOf_not_isl)
    with wt show "err = e" by simp
  qed
  have launch: "\<forall>i e.
               (\<forall>j\<in>set (finish w). j < length ?T \<longrightarrow> \<not> isl (?res (?T ! j)))
               \<and> i < length ?T \<and> ?res (?T ! i) = Inl e
               \<and> (\<forall>j<i. \<not> isl (?res (?T ! j)))
               \<longrightarrow> err = e"
  proof (intro allI impI)
    fix i e
    assume a: "(\<forall>j\<in>set (finish w). j < length ?T \<longrightarrow> \<not> isl (?res (?T ! j)))
               \<and> i < length ?T \<and> ?res (?T ! i) = Inl e
               \<and> (\<forall>j<i. \<not> isl (?res (?T ! j)))"
    then have "Wait (finish w) ?rs = Some e"
      by (intro Wait_launch_order [of _ _ i]) (auto simp: errOf_not_isl)
    with wt show "err = e" by simp
  qed
  from r assms(1,2) have m: "mux u w CaseEvent b
             = Some (map (\<lambda>c. SendAs c (From m) (Text m)) ?T, ?b')"
    by (simp add: mux_def)
  have c: "CloseReturn ?b' = Some (Some (if err = EOF then ErrorsNew ''unexpected EOF'' else err))"
    by (simp add: CloseReturn_def)
  have n: "\<forall>ops w' sel. mux u w' sel (run u ?b' ops) = None"
    by (simp add: mux_after_done)
  from e only first launch f m c n show ?thesis by blast
qed

theorem failed_send_is_terminal_witness:
  "mux DisplayName twoFailWorld CaseEvent ((New [chA, chB, chC])\<lparr>eventsMux := [evHi]\<rparr>)
     = Some ([SendAs chB alice ''hi'', SendAs chC alice ''hi''],
             (New [chA, chB, chC])\<lparr>closeError := Some (ErrorsNew ''Velour is down''),
                                    muxDone := True\<rparr>)
   \<and> CloseReturn ((New [chA, chB, chC])\<lparr>closeError := Some (ErrorsNew ''Velour is down''),
                                          muxDone := True\<rparr>)
     = Some (Some (ErrorsNew ''Velour is down''))
   \<and> mux DisplayName (okWorld ''1'') CaseEvent
       (run DisplayName
          ((New [chA, chB, chC])\<lparr>closeError := Some (ErrorsNew ''Velour is down''),
                                 muxDone := True\<rparr>)
          [OpPoll chA (Inr (MessageEv msgHi))])
     = None"
proof -
  let ?b = "(New [chA, chB, chC])\<lparr>eventsMux := [evHi]\<rparr>"
  let ?w = twoFailWorld
  have h1: "\<not> muxDone ?b"
    and h2: "eventsMux ?b = \<lparr>evOrigin = chA, what = MessageEv msgHi\<rparr> # []"
    by (simp_all add: New_def evHi_def)
  have t: "allChannelsExcept ?b chA = [chB, chC]"
    by (simp add: allChannelsExcept_def New_def chA_def chB_def chC_def)
  then have h3: "chB \<in> set (allChannelsExcept ?b chA)" by simp
  have s: "\<And>c. sendResult ?w c = Inl (ErrorsNew (Name (callChan c) @ '' is down''))"
    by (simp add: twoFailWorld_def)
  have h4: "sendResult ?w (SendAs chB (From msgHi) (Text msgHi)) = Inl (ErrorsNew ''#velour is down'')"
    by (simp add: s chB_def)
  from failed_send_is_terminal [OF h1 h2 h3 h4, of DisplayName]
  obtain err b' where
    first: "\<forall>i pre post e.
               finish ?w = pre @ i # post \<and> i < length (allChannelsExcept ?b chA)
               \<and> sendResult ?w (SendAs (allChannelsExcept ?b chA ! i) (From msgHi) (Text msgHi)) = Inl e
               \<and> (\<forall>j\<in>set pre. j < length (allChannelsExcept ?b chA) \<longrightarrow>
                     \<not> isl (sendResult ?w (SendAs (allChannelsExcept ?b chA ! j) (From msgHi) (Text msgHi))))
               \<longrightarrow> err = e"
    and m: "mux DisplayName ?w CaseEvent ?b
             = Some (map (\<lambda>c. SendAs c (From msgHi) (Text msgHi)) (allChannelsExcept ?b chA), b')"
    and b': "b' = ?b\<lparr>eventsMux := [], closeError := Some err, muxDone := True\<rparr>"
    and c: "CloseReturn b' = Some (Some (if err = EOF then ErrorsNew ''unexpected EOF'' else err))"
    and n: "\<forall>ops w' sel. mux DisplayName w' sel (run DisplayName b' ops) = None"
    by blast
  have "finish ?w = [] @ 1 # [0]" by (simp add: twoFailWorld_def)
  moreover have "sendResult ?w (SendAs (allChannelsExcept ?b chA ! 1) (From msgHi) (Text msgHi))
                   = Inl (ErrorsNew ''Velour is down'')"
    unfolding t by (simp add: s) (simp add: chC_def)
  ultimately have err: "err = ErrorsNew ''Velour is down''"
    using first [rule_format, of "[]" 1 "[0]" "ErrorsNew ''Velour is down''"] by (simp add: t)
  have bb: "b' = (New [chA, chB, chC])\<lparr>closeError := Some (ErrorsNew ''Velour is down''),
                                        muxDone := True\<rparr>"
    unfolding b' err by (simp add: New_def)
  from m c n show ?thesis
    unfolding t bb [symmetric] by (simp add: err msgHi_def)
qed

text \<open>
  Claim C5 as stated fails. The call on the only target fails with \<open>io.EOF\<close>; the mux
  goroutine forwards \<open>io.EOF\<close> as the terminal error, and \<open>Close\<close> returns another
  error, "unexpected EOF", not that failure.
\<close>

theorem failed_send_close_counterexample:
  "mux DisplayName (failWorld EOF) CaseEvent ((New [chA, chC])\<lparr>eventsMux := [evHi]\<rparr>)
     = Some ([SendAs chC alice ''hi''],
             (New [chA, chC])\<lparr>closeError := Some EOF, muxDone := True\<rparr>)
   \<and> sendResult (failWorld EOF) (SendAs chC alice ''hi'') = Inl EOF
   \<and> CloseReturn ((New [chA, chC])\<lparr>closeError := Some EOF, muxDone := True\<rparr>)
     = Some (Some (ErrorsNew ''unexpected EOF''))
   \<and> ErrorsNew ''unexpected EOF'' \<noteq> EOF"
  by (simp add: mux_def relay_def New_def evHi_def msgHi_def CloseReturn_def
        allChannelsExcept_def sendMessage_def sendCall_def failWorld_def
        Wait_def Let_def chA_def chC_def)

lemma find_unique:
  assumes "e \<in> set xs" and "P e" and "\<forall>x\<in>set xs. P x \<longrightarrow> x = e"
  shows "find P xs = Some e"
  using assms
proof (induction xs)
  case Nil
  then show ?case by simp
next
  case (Cons a xs)
  show ?case
  proof (cases "P a")
    case True
    with Cons.prems(3) have "a = e" by simp
    with True show ?thesis by simp
  next
    case False
    with Cons.prems(1,2) have "e \<in> set xs" by auto
    moreover from Cons.prems(3) have "\<forall>x\<in>set xs. P x \<longrightarrow> x = e" by simp
    ultimately have "find P xs = Some e" using Cons.prems(2) by (intro Cons.IH)
    with False show ?thesis by simp
  qed
qed

lemma sendCall_reply:
  "sendCall None (\<lambda>ch. map_option msg (find (\<lambda>c. to c = ch) (copies e))) t
     = (\<lambda>ch. case find (\<lambda>c. to c = ch) (copies e) of
                Some c \<Rightarrow> Reply ch (msg c) t
              | None \<Rightarrow> Send ch t)"
  by (auto simp: sendCall_def fun_eq_iff split: option.splits)

text \<open>
  Claim C2, as amended. A Reply event arrives from the channel \<open>B\<close>; the log holds the
  entry \<open>e\<close> with a copy on \<open>B\<close> that has the identifier of the message replied to, and
  no other entry of the log has a copy on \<open>B\<close> with that identifier (identifiers are
  unique on a channel). Then the relay calls, on every bridged channel other than
  \<open>B\<close>, \<open>Reply\<close> with the copy \<open>e\<close> records on that channel as the message replied to, and
  \<open>Send\<close> where \<open>e\<close> records no copy on that channel, whether the calls succeed or not.
  When every call succeeds, the relay returns no error and changes nothing but the
  log; when the log held fewer than \<open>maxHistory\<close> entries, it now ends with one new
  entry: its origin is the Bridge, its copies are the messages the targets returned
  and at the end the reply itself as the copy on \<open>B\<close>. When a call fails, the relay
  returns the error of a call that failed and leaves the Bridge as it is.
\<close>

theorem reply_uses_recorded_copies:
  assumes "e \<in> set (log b)"
    and "matches B (ID replyTo) e"
    and "\<forall>x\<in>set (log b). matches B (ID replyTo) x \<longrightarrow> x = e"
  shows "fst (relay u w b \<lparr>evOrigin = B, what = ReplyEv replyTo reply\<rparr>)
           = map (\<lambda>ch. case find (\<lambda>c. to c = ch) (copies e) of
                          Some c \<Rightarrow> Reply ch (msg c) (Text reply)
                        | None \<Rightarrow> Send ch (Text reply))
               (allChannelsExcept b B)
       \<and> ((\<forall>ch\<in>set (allChannelsExcept b B).
              sendResult w (case find (\<lambda>c. to c = ch) (copies e) of
                              Some c \<Rightarrow> Reply ch (msg c) (Text reply)
                            | None \<Rightarrow> Send ch (Text reply)) = Inr (r ch)) \<longrightarrow>
            (\<exists>l. snd (relay u w b \<lparr>evOrigin = B, what = ReplyEv replyTo reply\<rparr>)
                    = (None, b\<lparr>log := l\<rparr>)
                \<and> (length (log b) < maxHistory \<longrightarrow>
                      l = log b @ [\<lparr>origin = BridgeChan,
                                     copies = map (\<lambda>ch. \<lparr>to = ch, msg = r ch\<rparr>)
                                                (allChannelsExcept b B)
                                              @ [\<lparr>to = B, msg = reply\<rparr>]\<rparr>])))
       \<and> (ch \<in> set (allChannelsExcept b B)
            \<and> sendResult w (case find (\<lambda>c. to c = ch) (copies e) of
                              Some c \<Rightarrow> Reply ch (msg c) (Text reply)
                            | None \<Rightarrow> Send ch (Text reply)) = Inl err0 \<longrightarrow>
            (\<exists>err. (\<exists>c\<in>set (allChannelsExcept b B).
                       sendResult w (case find (\<lambda>x. to x = c) (copies e) of
                                       Some x \<Rightarrow> Reply c (msg x) (Text reply)
                                     | None \<Rightarrow> Send c (Text reply)) = Inl err)
                  \<and> snd (relay u w b \<lparr>evOrigin = B, what = ReplyEv replyTo reply\<rparr>)
                      = (Some err, b)))"
proof -
  let ?ev = "\<lparr>evOrigin = B, what = ReplyEv replyTo reply\<rparr>"
  let ?T = "allChannelsExcept b B"
  let ?call = "\<lambda>ch. case find (\<lambda>c. to c = ch) (copies e) of
                       Some c \<Rightarrow> Reply ch (msg c) (Text reply)
                     | None \<Rightarrow> Send ch (Text reply)"
  let ?fm = "Some (makeFindMessage b B (ID replyTo))"
  let ?entry = "\<lparr>origin = BridgeChan,
                 copies = map (\<lambda>ch. \<lparr>to = ch, msg = r ch\<rparr>) ?T @ [\<lparr>to = B, msg = reply\<rparr>]\<rparr>"
  from find_unique [OF assms] have "find (matches B (ID replyTo)) (log b) = Some e" .
  then have f: "makeFindMessage b B (ID replyTo)
                  = (\<lambda>ch. map_option msg (find (\<lambda>c. to c = ch) (copies e)))"
    by (simp add: makeFindMessage_def)
  have c: "?call = sendCall None (case ?fm of None \<Rightarrow> (\<lambda>ch. None) | Some f \<Rightarrow> f) (Text reply)"
    by (simp add: f sendCall_reply)
  have 1: "fst (relay u w b ?ev) = map ?call ?T"
  proof -
    obtain calls res where
      sm: "sendMessage w ?T None ?fm (Text reply) = (calls, res)"
      by (cases "sendMessage w ?T None ?fm (Text reply)")
    from sendMessage_calls [of w ?T None ?fm "Text reply"] sm
    have "calls = map ?call ?T"
      unfolding c [symmetric] by simp
    with sm show ?thesis
      by (cases res) (simp_all add: relay_def Let_def)
  qed
  have 2: "(\<forall>ch\<in>set ?T. sendResult w (?call ch) = Inr (r ch)) \<longrightarrow>
            (\<exists>l. snd (relay u w b ?ev) = (None, b\<lparr>log := l\<rparr>)
                \<and> (length (log b) < maxHistory \<longrightarrow> l = log b @ [?entry]))"
  proof
    assume ok: "\<forall>ch\<in>set ?T. sendResult w (?call ch) = Inr (r ch)"
    from sendMessage_ok [where call = ?call, OF ok c]
    have "sendMessage w ?T None ?fm (Text reply)
          = (map ?call ?T, Inr (map (\<lambda>ch. \<lparr>to = ch, msg = r ch\<rparr>) ?T))" .
    then have "snd (relay u w b ?ev) = (None, logMessage b ?entry)"
      by (simp add: relay_def Let_def)
    then have s: "snd (relay u w b ?ev) = (None, b\<lparr>log := log (logMessage b ?entry)\<rparr>)"
      by (simp add: logMessage_def Let_def)
    have "length (log b) < maxHistory \<longrightarrow> log (logMessage b ?entry) = log b @ [?entry]"
      by (simp add: logMessage_log)
    with s show "\<exists>l. snd (relay u w b ?ev) = (None, b\<lparr>log := l\<rparr>)
                \<and> (length (log b) < maxHistory \<longrightarrow> l = log b @ [?entry])"
      by blast
  qed
  have 3: "ch \<in> set ?T \<and> sendResult w (?call ch) = Inl err0 \<longrightarrow>
            (\<exists>err. (\<exists>c\<in>set ?T. sendResult w (?call c) = Inl err)
                  \<and> snd (relay u w b ?ev) = (Some err, b))"
  proof
    assume a: "ch \<in> set ?T \<and> sendResult w (?call ch) = Inl err0"
    then have a1: "ch \<in> set ?T" and a2: "sendResult w (?call ch) = Inl err0" by blast+
    from sendMessage_failed [where call = ?call, OF a1 a2 c]
    obtain err where
      s: "sendMessage w ?T None ?fm (Text reply) = (map ?call ?T, Inl err)"
      and e: "\<exists>c\<in>set ?T. sendResult w (?call c) = Inl err"
      by blast
    from s have "snd (relay u w b ?ev) = (Some err, b)"
      by (simp add: relay_def Let_def)
    with e show "\<exists>err. (\<exists>c\<in>set ?T. sendResult w (?call c) = Inl err)
                  \<and> snd (relay u w b ?ev) = (Some err, b)"
      by blast
  qed
  show ?thesis by (rule conjI [OF 1 conjI [OF 2 3]])
qed

theorem reply_uses_recorded_copies_witness:
  "relay DisplayName (okWorld ''5'') ((New [chA, chB, chC])\<lparr>log := [entry1, entry0]\<rparr>)
     \<lparr>evOrigin = chB,
      what = ReplyEv \<lparr>ID = ''hello'', From = bot, Text = ''hello''\<rparr>
                     \<lparr>ID = ''yo'', From = alice, Text = ''yo''\<rparr>\<rparr>
   = ([Reply chA \<lparr>ID = ''a0'', From = alice, Text = ''hello''\<rparr> ''yo'', Send chC ''yo''],
      None,
      (New [chA, chB, chC])
        \<lparr>log := [entry1, entry0,
                  \<lparr>origin = BridgeChan,
                   copies = [\<lparr>to = chA, msg = \<lparr>ID = ''general5'', From = bot, Text = ''yo''\<rparr>\<rparr>,
                             \<lparr>to = chC, msg = \<lparr>ID = ''Velour5'', From = bot, Text = ''yo''\<rparr>\<rparr>,
                             \<lparr>to = chB, msg = \<lparr>ID = ''yo'', From = alice, Text = ''yo''\<rparr>\<rparr>]\<rparr>]\<rparr>)
   \<and> relay DisplayName (failWorld (ErrorsNew ''rate limited''))
       ((New [chA, chB, chC])\<lparr>log := [entry1, entry0]\<rparr>)
       \<lparr>evOrigin = chB,
        what = ReplyEv \<lparr>ID = ''hello'', From = bot, Text = ''hello''\<rparr>
                       \<lparr>ID = ''yo'', From = alice, Text = ''yo''\<rparr>\<rparr>
   = ([Reply chA \<lparr>ID = ''a0'', From = alice, Text = ''hello''\<rparr> ''yo'', Send chC ''yo''],
      Some (ErrorsNew ''rate limited''),
      (New [chA, chB, chC])\<lparr>log := [entry1, entry0]\<rparr>)"
proof -
  let ?b = "(New [chA, chB, chC])\<lparr>log := [entry1, entry0]\<rparr>"
  let ?replyTo = "\<lparr>ID = ''hello'', From = bot, Text = ''hello''\<rparr>"
  let ?reply = "\<lparr>ID = ''yo'', From = alice, Text = ''yo''\<rparr>"
  let ?ev = "\<lparr>evOrigin = chB, what = ReplyEv ?replyTo ?reply\<rparr>"
  let ?r = "\<lambda>ch. \<lparr>ID = Name ch @ ''5'', From = bot, Text = ''yo''\<rparr>"
  let ?f = "failWorld (ErrorsNew ''rate limited'')"
  have h1: "entry0 \<in> set (log ?b)" by simp
  have h2: "matches chB (ID ?replyTo) entry0"
    by (simp add: matches_def entry0_def)
  have h3: "\<forall>x\<in>set (log ?b). matches chB (ID ?replyTo) x \<longrightarrow> x = entry0"
    by (simp add: matches_def entry1_def)
  have t: "allChannelsExcept ?b chB = [chA, chC]"
    by (simp add: allChannelsExcept_def New_def chA_def chB_def chC_def)
  have fa: "find (\<lambda>c. to c = chA) (copies entry0)
              = Some \<lparr>to = chA, msg = \<lparr>ID = ''a0'', From = alice, Text = ''hello''\<rparr>\<rparr>"
    and fc: "find (\<lambda>c. to c = chC) (copies entry0) = None"
    by (simp_all add: entry0_def chA_def chB_def chC_def)
  have ne: "chA \<noteq> chB" "chC \<noteq> chB"
    and nm: "Name chA = ''general''" "Name chC = ''Velour''"
    by (simp_all add: chA_def chB_def chC_def)
  have h4: "\<forall>ch\<in>set (allChannelsExcept ?b chB).
              sendResult (okWorld ''5'')
                (case find (\<lambda>c. to c = ch) (copies entry0) of
                   Some c \<Rightarrow> Reply ch (msg c) (Text ?reply)
                 | None \<Rightarrow> Send ch (Text ?reply)) = Inr (?r ch)"
    and h5: "length (log ?b) < maxHistory"
    unfolding t by (simp_all add: fa fc okWorld_def maxHistory_def ne nm)
  have s: "\<And>c. sendResult ?f c = Inl (ErrorsNew ''rate limited'')"
    by (simp add: failWorld_def)
  have h6: "chA \<in> set (allChannelsExcept ?b chB)
            \<and> sendResult ?f
                (case find (\<lambda>c. to c = chA) (copies entry0) of
                   Some c \<Rightarrow> Reply chA (msg c) (Text ?reply)
                 | None \<Rightarrow> Send chA (Text ?reply)) = Inl (ErrorsNew ''rate limited'')"
    by (simp add: t s)
  from reply_uses_recorded_copies
         [OF h1 h2 h3, where u = DisplayName and w = "okWorld ''5''" and reply = ?reply
            and r = ?r and ch = chA and ?err0.0 = EOF]
       h4 h5
  have "fst (relay DisplayName (okWorld ''5'') ?b ?ev)
          = [Reply chA \<lparr>ID = ''a0'', From = alice, Text = ''hello''\<rparr> ''yo'', Send chC ''yo'']
        \<and> snd (relay DisplayName (okWorld ''5'') ?b ?ev)
          = (None, ?b\<lparr>log := log ?b @ [\<lparr>origin = BridgeChan,
                                          copies = map (\<lambda>ch. \<lparr>to = ch, msg = ?r ch\<rparr>) [chA, chC]
                                                   @ [\<lparr>to = chB, msg = ?reply\<rparr>]\<rparr>]\<rparr>)"
    unfolding t by (auto simp: fa fc)
  then have 1: "relay DisplayName (okWorld ''5'') ?b ?ev
     = ([Reply chA \<lparr>ID = ''a0'', From = alice, Text = ''hello''\<rparr> ''yo'', Send chC ''yo''],
        None,
        (New [chA, chB, chC])
          \<lparr>log := [entry1, entry0,
                    \<lparr>origin = BridgeChan,
                     copies = [\<lparr>to = chA, msg = \<lparr>ID = ''general5'', From = bot, Text = ''yo''\<rparr>\<rparr>,
                               \<lparr>to = chC, msg = \<lparr>ID = ''Velour5'', From = bot, Text = ''yo''\<rparr>\<rparr>,
                               \<lparr>to = chB, msg = \<lparr>ID = ''yo'', From = alice, Text = ''yo''\<rparr>\<rparr>]\<rparr>]\<rparr>)"
    by (cases "relay DisplayName (okWorld ''5'') ?b ?ev") (simp add: nm New_def)
  from reply_uses_recorded_copies
         [OF h1 h2 h3, where u = DisplayName and w = ?f and reply = ?reply
            and r = ?r and ch = chA and ?err0.0 = "ErrorsNew ''rate limited''"]
       h6
  have "fst (relay DisplayName ?f ?b ?ev)
          = [Reply chA \<lparr>ID = ''a0'', From = alice, Text = ''hello''\<rparr> ''yo'', Send chC ''yo'']
        \<and> snd (relay DisplayName ?f ?b ?ev) = (Some (ErrorsNew ''rate limited''), ?b)"
    unfolding t by (auto simp: fa fc s)
  then have 2: "relay DisplayName ?f ?b ?ev
     = ([Reply chA \<lparr>ID = ''a0'', From = alice, Text = ''hello''\<rparr> ''yo'', Send chC ''yo''],
        Some (ErrorsNew ''rate limited''), ?b)"
    by (cases "relay DisplayName ?f ?b ?ev") simp
  from 1 2 show ?thesis by blast
qed

lemma length_otherEntries: "length otherEntries = 499"
  by (simp only: otherEntries_def length_map length_upt)

text \<open>
  Claim C2 as stated fails. The log of the Bridge holds \<open>maxHistory\<close> entries, each
  with identifiers of its own, among them the entry of a message from \<open>chA\<close> with the
  copy \<open>lunch?\<close> on \<open>chB\<close> and the copy \<open>1000\<close> on \<open>chC\<close>. The relay of a reply on \<open>chC\<close> to
  \<open>1000\<close> calls \<open>Reply\<close> on \<open>chA\<close> and \<open>chB\<close> with the copies recorded, every call
  succeeds, and the Bridge afterwards is the Bridge before: no entry is appended for
  the reply broadcast. And when the calls fail, on a log with room, the relay returns
  the error and appends no entry either.
\<close>

theorem reply_not_logged_counterexample:
  "length (log fullUnique) = maxHistory
   \<and> relay DisplayName (okWorld ''9'') fullUnique replyM
     = ([Reply chA \<lparr>ID = ''a1000'', From = alice, Text = ''lunch?''\<rparr> ''yes'',
         Reply chB \<lparr>ID = ''lunch?'', From = bot, Text = ''lunch?''\<rparr> ''yes''],
        None, fullUnique)
   \<and> relay DisplayName (failWorld (ErrorsNew ''rate limited''))
         ((New [chA, chB, chC])\<lparr>log := [entryM]\<rparr>) replyM
     = ([Reply chA \<lparr>ID = ''a1000'', From = alice, Text = ''lunch?''\<rparr> ''yes'',
         Reply chB \<lparr>ID = ''lunch?'', From = bot, Text = ''lunch?''\<rparr> ''yes''],
        Some (ErrorsNew ''rate limited''), (New [chA, chB, chC])\<lparr>log := [entryM]\<rparr>)"
  by (simp add: relay_def fullUnique_def replyM_def entryM_def New_def length_otherEntries
        makeFindMessage_def matches_def allChannelsExcept_def sendMessage_def sendCall_def
        okWorld_def failWorld_def Wait_def logMessage_def maxHistory_def Let_def
        chA_def chB_def chC_def)

end
